theory Spec2Isabelle
  imports Complex_Main
begin

section \<open>Python values\<close>

subsection \<open>Exceptions\<close>

text \<open>
  The exceptions that the built-in operations used by \<^verbatim>\<open>main.py\<close> can raise.
  A function that may raise returns \<open>error + 'a\<close>, with \<open>Inl\<close> for the exception.
\<close>

datatype error =
    AttributeError
  | TypeError
  | ValueError
  | OverflowError
  | ZeroDivisionError
  | IndexError
  | UnicodeDecodeError

subsection \<open>Floats\<close>

text \<open>
  A Python \<^verbatim>\<open>float\<close> is an IEEE 754 binary64 value: a sign and a magnitude, which is a
  rational of the form \<open>m * 2 ^ e\<close> with \<open>m < 2 ^ 53\<close>, or an infinity, or a NaN.
  Every operation computes the exact rational result and rounds it to the nearest
  representable value, ties to the even mantissa.
\<close>

datatype pyfloat = Finite bool rat | Infty bool | NaN

fun bit_length :: "nat \<Rightarrow> nat" where
  "bit_length n = (if n = 0 then 0 else Suc (bit_length (n div 2)))"

declare bit_length.simps [simp del]

definition pow2 :: "int \<Rightarrow> rat" where
  "pow2 e = (if 0 \<le> e then 2 ^ nat e else 1 / 2 ^ nat (- e))"

definition floor_log2 :: "rat \<Rightarrow> int" where
  "floor_log2 q =
     (let (a, b) = quotient_of q;
          d = int (bit_length (nat a)) - int (bit_length (nat b))
      in if pow2 d \<le> q then d else d - 1)"

definition round_half_even :: "rat \<Rightarrow> int" where
  "round_half_even x =
     (let f = \<lfloor>x\<rfloor>; r = x - of_int f
      in if r < 1 / 2 then f
         else if 1 / 2 < r then f + 1
         else if even f then f else f + 1)"

definition round_double :: "rat \<Rightarrow> rat option" where
  \<comment> \<open>the binary64 value nearest to a magnitude \<open>q \<ge> 0\<close>; \<open>None\<close> when it overflows\<close>
  "round_double q =
     (if q = 0 then Some 0
      else let e = max (floor_log2 q) (- 1022);
               ulp = pow2 (e - 52);
               r = of_int (round_half_even (q / ulp)) * ulp
           in if pow2 1024 \<le> r then None else Some r)"

definition signed :: "bool \<Rightarrow> rat \<Rightarrow> rat" where
  "signed s a = (if s then - a else a)"

definition float_of_rat :: "rat \<Rightarrow> pyfloat" where
  \<comment> \<open>the float denoted by a decimal literal whose exact value is \<open>q\<close>\<close>
  "float_of_rat q =
     (case round_double \<bar>q\<bar> of None \<Rightarrow> Infty (q < 0) | Some m \<Rightarrow> Finite (q < 0) m)"

definition float_of_int :: "int \<Rightarrow> error + pyfloat" where
  \<comment> \<open>conversion of an \<^verbatim>\<open>int\<close> operand; raises when the integer is too large\<close>
  "float_of_int n =
     (case round_double \<bar>of_int n\<bar> of
        None \<Rightarrow> Inl OverflowError
      | Some m \<Rightarrow> Inr (Finite (n < 0) m))"

fun float_add :: "pyfloat \<Rightarrow> pyfloat \<Rightarrow> pyfloat" where
  "float_add NaN y = NaN"
| "float_add (Infty s) NaN = NaN"
| "float_add (Infty s) (Infty t) = (if s = t then Infty s else NaN)"
| "float_add (Infty s) (Finite t b) = Infty s"
| "float_add (Finite s a) NaN = NaN"
| "float_add (Finite s a) (Infty t) = Infty t"
| "float_add (Finite s a) (Finite t b) =
     (let x = signed s a + signed t b
      in if x = 0 then Finite (s \<and> t) 0
         else case round_double \<bar>x\<bar> of
                None \<Rightarrow> Infty (x < 0)
              | Some m \<Rightarrow> Finite (x < 0) m)"

fun float_truediv :: "pyfloat \<Rightarrow> pyfloat \<Rightarrow> error + pyfloat" where
  "float_truediv x (Finite t b) =
     (if b = 0 then Inl ZeroDivisionError
      else case x of
             NaN \<Rightarrow> Inr NaN
           | Infty s \<Rightarrow> Inr (Infty (s \<noteq> t))
           | Finite s a \<Rightarrow>
               (case round_double (a / b) of
                  None \<Rightarrow> Inr (Infty (s \<noteq> t))
                | Some m \<Rightarrow> Inr (Finite (s \<noteq> t) m)))"
| "float_truediv x NaN = Inr NaN"
| "float_truediv x (Infty t) =
     (case x of
        NaN \<Rightarrow> Inr NaN
      | Infty s \<Rightarrow> Inr NaN
      | Finite s a \<Rightarrow> Inr (Finite (s \<noteq> t) 0))"

subsection \<open>Decimal text\<close>

definition digit_char :: "nat \<Rightarrow> char" where
  "digit_char d = ''0123456789'' ! (d mod 10)"

fun digits :: "nat \<Rightarrow> string" where
  "digits n = (if n < 10 then [digit_char n] else digits (n div 10) @ [digit_char (n mod 10)])"

declare digits.simps [simp del]

definition format_3f :: "pyfloat \<Rightarrow> string" where
  \<comment> \<open>\<^verbatim>\<open>f"{x:.3f}"\<close>: the exact value rounded to three decimals, ties to even\<close>
  "format_3f x =
     (case x of
        NaN \<Rightarrow> ''nan''
      | Infty s \<Rightarrow> (if s then ''-inf'' else ''inf'')
      | Finite s a \<Rightarrow>
          (let n = nat (round_half_even (a * 1000))
           in (if s then ''-'' else []) @ digits (n div 1000) @ ''.'' @
              [digit_char (n div 100), digit_char (n div 10), digit_char n]))"

subsection \<open>Decoded JSON\<close>

text \<open>
  What \<^verbatim>\<open>json.loads\<close> returns. A \<^verbatim>\<open>dict\<close> is the list of its items in insertion
  order; its keys are distinct, and \<open>map_of\<close> reads it.
\<close>

datatype json =
    JNull
  | JBool bool
  | JInt int
  | JFloat pyfloat
  | JStr string
  | JList "json list"
  | JDict "(string \<times> json) list"

fun truthy :: "json \<Rightarrow> bool" where
  "truthy JNull = False"
| "truthy (JBool b) = b"
| "truthy (JInt n) = (n \<noteq> 0)"
| "truthy (JFloat x) = (case x of Finite s a \<Rightarrow> a \<noteq> 0 | _ \<Rightarrow> True)"
| "truthy (JStr s) = (s \<noteq> [])"
| "truthy (JList xs) = (xs \<noteq> [])"
| "truthy (JDict kvs) = (kvs \<noteq> [])"

fun entry_get :: "json \<Rightarrow> string \<Rightarrow> json \<Rightarrow> error + json" where
  \<comment> \<open>\<^verbatim>\<open>entry.get(key, default)\<close>; only a dict has the method\<close>
  "entry_get (JDict kvs) key dflt =
     (case map_of kvs key of None \<Rightarrow> Inr dflt | Some v \<Rightarrow> Inr v)"
| "entry_get _ key dflt = Inl AttributeError"

fun is_dict :: "json \<Rightarrow> bool" where
  "is_dict (JDict kvs) = True"
| "is_dict _ = False"

section \<open>Aggregation and the report (\<^verbatim>\<open>generate_average_report\<close>)\<close>

subsection \<open>String and dictionary operations\<close>

fun split_char :: "char \<Rightarrow> string \<Rightarrow> string list" where
  \<comment> \<open>\<^verbatim>\<open>s.split(c)\<close> for a separator of one character\<close>
  "split_char c [] = [[]]"
| "split_char c (x # xs) =
     (if x = c then [] # split_char c xs
      else case split_char c xs of
             [] \<Rightarrow> [[x]]
           | w # ws \<Rightarrow> (x # w) # ws)"

fun str_split :: "json \<Rightarrow> char \<Rightarrow> error + string list" where
  \<comment> \<open>only a \<^verbatim>\<open>str\<close> has the method \<^verbatim>\<open>split\<close>\<close>
  "str_split (JStr s) c = Inr (split_char c s)"
| "str_split _ c = Inl AttributeError"

fun item0 :: "'a list \<Rightarrow> error + 'a" where
  \<comment> \<open>\<^verbatim>\<open>xs[0]\<close>\<close>
  "item0 [] = Inl IndexError"
| "item0 (x # xs) = Inr x"

record stat =
  count :: int
  total_time :: pyfloat

type_synonym stats = "(string \<times> stat) list"

definition default_stat :: stat where
  \<comment> \<open>the \<^verbatim>\<open>defaultdict\<close> factory: \<^verbatim>\<open>{"count": 0, "total_time": 0.0}\<close>\<close>
  "default_stat = \<lparr>count = 0, total_time = Finite False 0\<rparr>"

definition stats_getitem :: "stats \<Rightarrow> string \<Rightarrow> stats \<times> stat" where
  \<comment> \<open>\<^verbatim>\<open>stats[k]\<close>: a missing key is first inserted, at the end, with the default\<close>
  "stats_getitem stats k =
     (case map_of stats k of
        None \<Rightarrow> (stats @ [(k, default_stat)], default_stat)
      | Some d \<Rightarrow> (stats, d))"

fun stats_store :: "stats \<Rightarrow> string \<Rightarrow> stat \<Rightarrow> stats" where
  \<comment> \<open>the value held under a key is replaced where it stands\<close>
  "stats_store [] k d = [(k, d)]"
| "stats_store ((k', d') # rest) k d =
     (if k' = k then (k', d) # rest else (k', d') # stats_store rest k d)"

fun float_plus :: "pyfloat \<Rightarrow> json \<Rightarrow> error + pyfloat" where
  \<comment> \<open>\<^verbatim>\<open>x + v\<close> for a float \<open>x\<close>: an int (and a bool, which is an int) is converted first\<close>
  "float_plus x (JFloat y) = Inr (float_add x y)"
| "float_plus x (JInt n) =
     (case float_of_int n of Inl e \<Rightarrow> Inl e | Inr y \<Rightarrow> Inr (float_add x y))"
| "float_plus x (JBool b) =
     (case float_of_int (if b then 1 else 0) of Inl e \<Rightarrow> Inl e | Inr y \<Rightarrow> Inr (float_add x y))"
| "float_plus x _ = Inl TypeError"

subsection \<open>The loop over the entries (lines 90 to 97)\<close>

definition aggregate_entry :: "stats \<Rightarrow> json \<Rightarrow> error + stats" where
  "aggregate_entry stats entry =
     (case entry_get entry ''url'' (JStr []) of
        Inl e \<Rightarrow> Inl e
      | Inr url \<Rightarrow>
          if truthy url then
            (case str_split url CHR ''?'' of
               Inl e \<Rightarrow> Inl e
             | Inr parts \<Rightarrow>
                (case item0 parts of
                   Inl e \<Rightarrow> Inl e
                 | Inr endpoint \<Rightarrow>
                    (case entry_get entry ''response_time'' (JFloat (Finite False 0)) of
                       Inl e \<Rightarrow> Inl e
                     | Inr response_time \<Rightarrow>
                        (let (stats1, d1) = stats_getitem stats endpoint;
                             stats2 = stats_store stats1 endpoint (d1\<lparr>count := count d1 + 1\<rparr>);
                             (stats3, d3) = stats_getitem stats2 endpoint
                         in case float_plus (total_time d3) response_time of
                              Inl e \<Rightarrow> Inl e
                            | Inr t \<Rightarrow> Inr (stats_store stats3 endpoint (d3\<lparr>total_time := t\<rparr>))))))
          else Inr stats)"

fun aggregate :: "stats \<Rightarrow> json list \<Rightarrow> error + stats" where
  "aggregate stats [] = Inr stats"
| "aggregate stats (entry # rest) =
     (case aggregate_entry stats entry of
        Inl e \<Rightarrow> Inl e
      | Inr stats' \<Rightarrow> aggregate stats' rest)"

subsection \<open>The table (lines 102 to 113)\<close>

type_synonym row = "string \<times> int \<times> string"

type_synonym ranked_row = "nat \<times> string \<times> int \<times> string"

definition avg_time :: "stat \<Rightarrow> error + pyfloat" where
  \<comment> \<open>the division converts the count to a float; the \<^verbatim>\<open>0\<close> of the other branch is
      converted by the format\<close>
  "avg_time d =
     (if count d > 0 then
        (case float_of_int (count d) of
           Inl e \<Rightarrow> Inl e
         | Inr c \<Rightarrow> float_truediv (total_time d) c)
      else float_of_int 0)"

fun table_rows :: "stats \<Rightarrow> error + row list" where
  "table_rows [] = Inr []"
| "table_rows ((endpoint, d) # rest) =
     (case avg_time d of
        Inl e \<Rightarrow> Inl e
      | Inr a \<Rightarrow>
         (case table_rows rest of
            Inl e \<Rightarrow> Inl e
          | Inr rows \<Rightarrow> Inr ((endpoint, count d, format_3f a) # rows)))"

definition row_count :: "row \<Rightarrow> int" where
  \<comment> \<open>the sort key \<^verbatim>\<open>lambda x: x[1]\<close>\<close>
  "row_count r = fst (snd r)"

definition sort_reverse :: "('a \<Rightarrow> int) \<Rightarrow> 'a list \<Rightarrow> 'a list" where
  \<comment> \<open>\<^verbatim>\<open>xs.sort(key=f, reverse=True)\<close>: the list is reversed, sorted by a stable ascending
      sort, and reversed again\<close>
  "sort_reverse f xs = rev (sort_key f (rev xs))"

definition table_data :: "stats \<Rightarrow> error + ranked_row list" where
  "table_data stats =
     (case table_rows stats of
        Inl e \<Rightarrow> Inl e
      | Inr rows \<Rightarrow> Inr (enumerate 0 (sort_reverse row_count rows)))"

type_synonym formatter = "ranked_row list \<Rightarrow> string list \<Rightarrow> string \<Rightarrow> string list \<Rightarrow> string"

definition headers :: "string list" where
  "headers = ['''', ''handler'', ''total'', ''avg_response_time'']"

definition colalign :: "string list" where
  "colalign = [''left'', ''left'', ''right'', ''right'']"

definition generate_average_report :: "formatter \<Rightarrow> json list \<Rightarrow> error + string" where
  \<comment> \<open>\<open>tabulate\<close> is the function of the library of that name, which the repository
      imports\<close>
  "generate_average_report tabulate entries =
     (if entries = [] then Inr ''No log entries found''
      else case aggregate [] entries of
             Inl e \<Rightarrow> Inl e
           | Inr stats \<Rightarrow>
               if stats = [] then Inr ''No valid endpoints found''
               else case table_data stats of
                      Inl e \<Rightarrow> Inl e
                    | Inr rows \<Rightarrow> Inr (tabulate rows headers ''plain'' colalign))"

section \<open>The date filter (\<^verbatim>\<open>filter_by_date\<close>)\<close>

text \<open>
  A \<^verbatim>\<open>datetime\<close> holds the fields as the timestamp writes them, and the offset from UTC
  (in microseconds) when the timestamp gives one. \<^verbatim>\<open>datetime.fromisoformat\<close> belongs to
  the standard library: the filter takes it as the parameter \<open>fromisoformat\<close>, which
  returns \<open>None\<close> where the library raises \<^verbatim>\<open>ValueError\<close>.
\<close>

record datetime =
  year :: nat
  month :: nat
  day :: nat
  hour :: nat
  minute :: nat
  second :: nat
  microsecond :: nat
  utcoffset :: "int option"

type_synonym iso_parser = "string \<Rightarrow> datetime option"

definition zfill :: "nat \<Rightarrow> string \<Rightarrow> string" where
  "zfill n s = replicate (n - length s) CHR ''0'' @ s"

definition format_date :: "nat \<times> nat \<times> nat \<Rightarrow> string" where
  "format_date ymd =
     (case ymd of (y, m, d) \<Rightarrow>
        zfill 4 (digits y) @ ''-'' @ zfill 2 (digits m) @ ''-'' @ zfill 2 (digits d))"

definition strftime_Ymd :: "datetime \<Rightarrow> string" where
  \<comment> \<open>\<^verbatim>\<open>dt.strftime("%Y-%m-%d")\<close>: the fields of \<open>dt\<close> itself, whatever its offset\<close>
  "strftime_Ymd dt = format_date (year dt, month dt, day dt)"

fun str_replace_Z :: "json \<Rightarrow> error + string" where
  \<comment> \<open>\<^verbatim>\<open>timestamp.replace("Z", "+00:00")\<close>: every \<^verbatim>\<open>Z\<close> is replaced; only a \<^verbatim>\<open>str\<close>
      has the method\<close>
  "str_replace_Z (JStr s) =
     Inr (concat (map (\<lambda>c. if c = CHR ''Z'' then ''+00:00'' else [c]) s))"
| "str_replace_Z _ = Inl AttributeError"

definition entry_date :: "iso_parser \<Rightarrow> json \<Rightarrow> error + string" where
  \<comment> \<open>lines 74 and 75\<close>
  "entry_date fromisoformat timestamp =
     (case str_replace_Z timestamp of
        Inl e \<Rightarrow> Inl e
      | Inr s \<Rightarrow>
         (case fromisoformat s of
            None \<Rightarrow> Inl ValueError
          | Some dt \<Rightarrow> Inr (strftime_Ymd dt)))"

fun filter_loop :: "iso_parser \<Rightarrow> string \<Rightarrow> json list \<Rightarrow> json list \<Rightarrow> error + json list" where
  "filter_loop fromisoformat date_filter filtered [] = Inr filtered"
| "filter_loop fromisoformat date_filter filtered (entry # rest) =
     (case entry_get entry ''@timestamp'' (JStr []) of
        Inl e \<Rightarrow> Inl e
      | Inr timestamp \<Rightarrow>
          if truthy timestamp then
            (case entry_date fromisoformat timestamp of
               Inl e \<Rightarrow>
                 if e = ValueError \<or> e = AttributeError
                 then filter_loop fromisoformat date_filter filtered rest
                 else Inl e
             | Inr d \<Rightarrow>
                 if d = date_filter
                 then filter_loop fromisoformat date_filter (filtered @ [entry]) rest
                 else filter_loop fromisoformat date_filter filtered rest)
          else filter_loop fromisoformat date_filter filtered rest)"

definition filter_by_date :: "iso_parser \<Rightarrow> json list \<Rightarrow> string \<Rightarrow> error + json list" where
  "filter_by_date fromisoformat entries date_filter =
     filter_loop fromisoformat date_filter [] entries"

section \<open>Reading the files (\<^verbatim>\<open>read_log_files\<close>)\<close>

text \<open>
  What the file system answers for a path: no such file; a file that \<^verbatim>\<open>open\<close> refuses
  with an \<^verbatim>\<open>OSError\<close>; or a file that opens and delivers lines until its end, until
  a read fails with an \<^verbatim>\<open>OSError\<close>, or until its bytes are not UTF-8, which raises
  \<^verbatim>\<open>UnicodeDecodeError\<close> (a \<^verbatim>\<open>ValueError\<close>). \<^verbatim>\<open>json.loads\<close> is the parameter
  \<open>loads\<close>, with \<open>Inl\<close> the message of a \<^verbatim>\<open>JSONDecodeError\<close>. What is printed is
  the list of the lines printed, in order.
\<close>

datatype read_end = Eof | ReadOSError string | ReadUnicodeError

datatype source = Missing | OpenFails string | Opened "string list" read_end

type_synonym decoder = "string \<Rightarrow> string + json"

definition is_space :: "char \<Rightarrow> bool" where
  \<comment> \<open>the characters below 256 for which \<^verbatim>\<open>str.isspace\<close> holds\<close>
  "is_space c = ((of_char c :: nat) \<in> {9, 10, 11, 12, 13, 28, 29, 30, 31, 32, 133, 160})"

definition strip :: "string \<Rightarrow> string" where
  "strip s = rev (dropWhile is_space (rev (dropWhile is_space s)))"

fun read_lines ::
  "decoder \<Rightarrow> string \<Rightarrow> nat \<Rightarrow> string list \<Rightarrow> string list \<times> json list \<Rightarrow> string list \<times> json list"
where
  "read_lines loads file_path line_num [] st = st"
| "read_lines loads file_path line_num (line # rest) (out, entries) =
     (let line' = strip line
      in if line' = [] then read_lines loads file_path (Suc line_num) rest (out, entries)
         else case loads line' of
                Inr entry \<Rightarrow>
                  read_lines loads file_path (Suc line_num) rest (out, entries @ [entry])
              | Inl msg \<Rightarrow>
                  read_lines loads file_path (Suc line_num) rest
                    (out @ [''Warning: Invalid JSON in '' @ file_path @ '' at line '' @
                            digits line_num @ '': '' @ msg], entries))"

fun read_files ::
  "(string \<Rightarrow> source) \<Rightarrow> decoder \<Rightarrow> string list \<Rightarrow> string list \<times> json list
     \<Rightarrow> string list \<times> (error + json list)"
where
  "read_files fs loads [] (out, entries) = (out, Inr entries)"
| "read_files fs loads (file_path # rest) (out, entries) =
     (case fs file_path of
        Missing \<Rightarrow>
          read_files fs loads rest
            (out @ [''Warning: File '' @ file_path @ '' does not exist, skipping...''], entries)
      | OpenFails msg \<Rightarrow>
          read_files fs loads rest
            (out @ [''Error reading file '' @ file_path @ '': '' @ msg], entries)
      | Opened lines e \<Rightarrow>
          (case read_lines loads file_path 1 lines (out, entries) of
             (out', entries') \<Rightarrow>
               (case e of
                  Eof \<Rightarrow> read_files fs loads rest (out', entries')
                | ReadOSError msg \<Rightarrow>
                    read_files fs loads rest
                      (out' @ [''Error reading file '' @ file_path @ '': '' @ msg], entries')
                | ReadUnicodeError \<Rightarrow> (out', Inl UnicodeDecodeError))))"

definition read_log_files ::
  "(string \<Rightarrow> source) \<Rightarrow> decoder \<Rightarrow> string list \<Rightarrow> string list \<times> (error + json list)" where
  "read_log_files fs loads file_paths = read_files fs loads file_paths ([], [])"

section \<open>The command (\<^verbatim>\<open>main\<close>)\<close>

text \<open>
  The arguments as \<^verbatim>\<open>argparse\<close> delivers them (\<open>files\<close> is \<^verbatim>\<open>args.file\<close>), and everything outside the repository
  that a run consults. \<open>strptime_ok d\<close> says that
  \<^verbatim>\<open>datetime.strptime(d, "%Y-%m-%d")\<close> does not raise.
\<close>

record args =
  files :: "string list"
  report :: string
  date :: "string option"

record world =
  fs :: "string \<Rightarrow> source"
  loads :: decoder
  strptime_ok :: "string \<Rightarrow> bool"
  fromisoformat :: iso_parser
  tabulate :: formatter

datatype process_end = Returned | SystemExit int | Uncaught error

definition exit_code :: "process_end \<Rightarrow> int" where
  \<comment> \<open>the exit status of the interpreter; an uncaught exception gives 1\<close>
  "exit_code e = (case e of Returned \<Rightarrow> 0 | SystemExit c \<Rightarrow> c | Uncaught x \<Rightarrow> 1)"

datatype stage = Ended "string list" process_end | Reporting "string list" "json list"

definition date_given :: "args \<Rightarrow> bool" where
  \<comment> \<open>\<^verbatim>\<open>if args.date:\<close> holds for a string that is not empty\<close>
  "date_given a = (case date a of None \<Rightarrow> False | Some d \<Rightarrow> d \<noteq> [])"

definition date_text :: "args \<Rightarrow> string" where
  "date_text a = (case date a of None \<Rightarrow> [] | Some d \<Rightarrow> d)"

definition main_before_report :: "world \<Rightarrow> args \<Rightarrow> stage" where
  \<comment> \<open>lines 126 to 145: the run either ends, or reaches line 147 with \<open>entries\<close>\<close>
  "main_before_report w a =
     (if date_given a \<and> \<not> strptime_ok w (date_text a) then
        Ended [''Error: Invalid date format '' @ [CHR 0x27] @ date_text a @ [CHR 0x27] @
               ''. Use YYYY-MM-DD format.''] (SystemExit 1)
      else case read_log_files (fs w) (loads w) (files a) of
             (out, Inl e) \<Rightarrow> Ended out (Uncaught e)
           | (out, Inr entries) \<Rightarrow>
               if entries = [] then
                 Ended (out @ [''Error: No valid log entries found in the specified files.''])
                   (SystemExit 1)
               else if date_given a then
                 (case filter_by_date (fromisoformat w) entries (date_text a) of
                    Inl e \<Rightarrow> Ended out (Uncaught e)
                  | Inr entries' \<Rightarrow>
                      if entries' = [] then
                        Ended (out @ [''No log entries found for date '' @ date_text a])
                          (SystemExit 0)
                      else Reporting out entries')
               else Reporting out entries)"

definition main :: "world \<Rightarrow> args \<Rightarrow> string list \<times> process_end" where
  "main w a =
     (case main_before_report w a of
        Ended out e \<Rightarrow> (out, e)
      | Reporting out entries \<Rightarrow>
          if report a = ''average'' then
            (case generate_average_report (tabulate w) entries of
               Inl e \<Rightarrow> (out, Uncaught e)
             | Inr r \<Rightarrow> (out @ [r], Returned))
          else
            (out @ [''Error: Unknown report type '' @ [CHR 0x27] @ report a @ [CHR 0x27] @
                    ''. Supported: average''], SystemExit 1))"

section \<open>The statements of the specification\<close>

subsection \<open>The date filter as the specification words it\<close>

text \<open>
  The specification keeps a record when its timestamp, with a trailing \<^verbatim>\<open>Z\<close> read as
  \<^verbatim>\<open>+00:00\<close>, parses and its calendar date after normalising to UTC is the target date.
  An offset lies strictly between minus and plus 24 hours, so the UTC date is the
  written date, the day before, or the day after. A timestamp without an offset is read
  as UTC.
\<close>

definition is_leap :: "nat \<Rightarrow> bool" where
  "is_leap y = (y mod 4 = 0 \<and> (y mod 100 \<noteq> 0 \<or> y mod 400 = 0))"

definition days_in_month :: "nat \<Rightarrow> nat \<Rightarrow> nat" where
  "days_in_month y m =
     (if m = 2 then (if is_leap y then 29 else 28)
      else if m = 4 \<or> m = 6 \<or> m = 9 \<or> m = 11 then 30 else 31)"

definition next_day :: "nat \<times> nat \<times> nat \<Rightarrow> nat \<times> nat \<times> nat" where
  "next_day ymd =
     (case ymd of (y, m, d) \<Rightarrow>
        if d < days_in_month y m then (y, m, d + 1)
        else if m < 12 then (y, m + 1, 1) else (y + 1, 1, 1))"

definition prev_day :: "nat \<times> nat \<times> nat \<Rightarrow> nat \<times> nat \<times> nat" where
  "prev_day ymd =
     (case ymd of (y, m, d) \<Rightarrow>
        if 1 < d then (y, m, d - 1)
        else if 1 < m then (y, m - 1, days_in_month y (m - 1)) else (y - 1, 12, 31))"

definition utc_date :: "datetime \<Rightarrow> nat \<times> nat \<times> nat" where
  "utc_date dt =
     (let local = int (((hour dt * 60 + minute dt) * 60 + second dt) * 1000000 + microsecond dt);
          utc = local - (case utcoffset dt of None \<Rightarrow> 0 | Some off \<Rightarrow> off);
          ymd = (year dt, month dt, day dt)
      in if utc < 0 then prev_day ymd
         else if 86400000000 \<le> utc then next_day ymd
         else ymd)"

definition spec_timestamp :: "string \<Rightarrow> string" where
  "spec_timestamp s = (if s \<noteq> [] \<and> last s = CHR ''Z'' then butlast s @ ''+00:00'' else s)"

definition spec_on_date :: "iso_parser \<Rightarrow> string \<Rightarrow> json \<Rightarrow> bool" where
  "spec_on_date parse date_filter entry =
     (case entry of
        JDict kvs \<Rightarrow>
          (case map_of kvs ''@timestamp'' of
             Some (JStr s) \<Rightarrow>
               (case parse (spec_timestamp s) of
                  Some dt \<Rightarrow> format_date (utc_date dt) = date_filter
                | None \<Rightarrow> False)
           | _ \<Rightarrow> False)
      | _ \<Rightarrow> False)"

definition spec_filter_by_date :: "iso_parser \<Rightarrow> json list \<Rightarrow> string \<Rightarrow> json list" where
  "spec_filter_by_date parse entries date_filter =
     filter (spec_on_date parse date_filter) entries"

subsection \<open>The date filter as the code computes it\<close>

definition on_date :: "iso_parser \<Rightarrow> string \<Rightarrow> json \<Rightarrow> bool" where
  \<comment> \<open>the timestamp is a string that is not empty and that parses once every \<^verbatim>\<open>Z\<close> is
      replaced, and the date it writes, in its own offset, is the target\<close>
  "on_date parse date_filter entry =
     (case entry of
        JDict kvs \<Rightarrow>
          (case map_of kvs ''@timestamp'' of
             Some (JStr s) \<Rightarrow>
               s \<noteq> [] \<and>
               (case parse (concat (map (\<lambda>c. if c = CHR ''Z'' then ''+00:00'' else [c]) s)) of
                  Some dt \<Rightarrow> format_date (year dt, month dt, day dt) = date_filter
                | None \<Rightarrow> False)
           | _ \<Rightarrow> False)
      | _ \<Rightarrow> False)"

subsection \<open>Endpoints and contributions\<close>

definition endpoint_of :: "string \<Rightarrow> string" where
  \<comment> \<open>the part of a URL before its first \<^verbatim>\<open>?\<close>\<close>
  "endpoint_of u = takeWhile (\<lambda>c. c \<noteq> CHR ''?'') u"

definition contributes :: "json \<Rightarrow> bool" where
  \<comment> \<open>the record has a URL that is a string and is not empty\<close>
  "contributes entry =
     (case entry of
        JDict kvs \<Rightarrow> (case map_of kvs ''url'' of Some (JStr u) \<Rightarrow> u \<noteq> [] | _ \<Rightarrow> False)
      | _ \<Rightarrow> False)"

definition key_of :: "json \<Rightarrow> string" where
  \<comment> \<open>the endpoint of a contributing record\<close>
  "key_of entry =
     (case entry of
        JDict kvs \<Rightarrow> (case map_of kvs ''url'' of Some (JStr u) \<Rightarrow> endpoint_of u | _ \<Rightarrow> [])
      | _ \<Rightarrow> [])"

definition time_of :: "json \<Rightarrow> json" where
  \<comment> \<open>\<^verbatim>\<open>entry.get("response_time", 0.0)\<close> of a record\<close>
  "time_of entry =
     (case entry of
        JDict kvs \<Rightarrow>
          (case map_of kvs ''response_time'' of None \<Rightarrow> JFloat (Finite False 0) | Some v \<Rightarrow> v)
      | _ \<Rightarrow> JFloat (Finite False 0))"

definition spec_time_of :: "json \<Rightarrow> json" where
  \<comment> \<open>the response time as the specification words it: 0.0 when absent or not a number\<close>
  "spec_time_of entry =
     (case time_of entry of
        JInt n \<Rightarrow> JInt n
      | JFloat x \<Rightarrow> JFloat x
      | _ \<Rightarrow> JFloat (Finite False 0))"

definition stat_of :: "stats \<Rightarrow> string \<Rightarrow> stat" where
  \<comment> \<open>what the mapping holds for an endpoint, the default when it holds nothing\<close>
  "stat_of stats k = (case map_of stats k of None \<Rightarrow> default_stat | Some d \<Rightarrow> d)"

fun sum_times :: "pyfloat \<Rightarrow> json list \<Rightarrow> error + pyfloat" where
  \<comment> \<open>the sum, from left to right in float arithmetic, of a list of response times\<close>
  "sum_times t [] = Inr t"
| "sum_times t (v # vs) =
     (case float_plus t v of Inl e \<Rightarrow> Inl e | Inr t' \<Rightarrow> sum_times t' vs)"

definition spec_aggregate_entry :: "stats \<Rightarrow> json \<Rightarrow> error + stats" where
  \<comment> \<open>a contributing record as the specification words it: the count of its endpoint
      grows by one and its total by the response time, 0.0 when absent or not a number\<close>
  "spec_aggregate_entry stats entry =
     (let k = key_of entry; d = stat_of stats k
      in case float_plus (total_time d) (spec_time_of entry) of
           Inl e \<Rightarrow> Inl e
         | Inr t \<Rightarrow> Inr (stats_store stats k \<lparr>count = count d + 1, total_time = t\<rparr>))"

definition discovery_order :: "'a list \<Rightarrow> 'a list" where
  \<comment> \<open>the elements of a list in the order of their first occurrence\<close>
  "discovery_order ks = rev (remdups (rev ks))"

subsection \<open>Three decimal places\<close>

definition is_digit :: "char \<Rightarrow> bool" where
  "is_digit c = (c \<in> set ''0123456789'')"

definition three_decimals :: "string \<Rightarrow> bool" where
  \<comment> \<open>an optional sign, one digit or more, a point, and exactly three digits\<close>
  "three_decimals s =
     (let t = (case s of [] \<Rightarrow> [] | c # r \<Rightarrow> if c = CHR ''-'' then r else s);
          whole = take (length t - 4) t;
          frac = drop (length t - 4) t
      in whole \<noteq> [] \<and> list_all is_digit whole \<and>
         (case frac of
            [p, a, b, c] \<Rightarrow> p = CHR ''.'' \<and> is_digit a \<and> is_digit b \<and> is_digit c
          | _ \<Rightarrow> False))"

fun is_finite :: "pyfloat \<Rightarrow> bool" where
  "is_finite (Finite s a) = True"
| "is_finite _ = False"

subsection \<open>Inputs well typed for the report\<close>

definition number_ok :: "json \<Rightarrow> bool" where
  \<comment> \<open>a float, or an int or bool that converts to a float without overflow\<close>
  "number_ok v =
     (case v of
        JFloat x \<Rightarrow> True
      | JInt n \<Rightarrow> (case float_of_int n of Inl e \<Rightarrow> False | Inr y \<Rightarrow> True)
      | JBool b \<Rightarrow> True
      | _ \<Rightarrow> False)"

definition is_number :: "json \<Rightarrow> bool" where
  \<comment> \<open>a JSON number\<close>
  "is_number v = (case v of JFloat x \<Rightarrow> True | JInt n \<Rightarrow> True | _ \<Rightarrow> False)"

definition url_ok :: "json \<Rightarrow> bool" where
  \<comment> \<open>a record whose URL, when present and truthy, is a string\<close>
  "url_ok entry =
     (case entry of
        JDict kvs \<Rightarrow>
          (case map_of kvs ''url'' of
             None \<Rightarrow> True
           | Some (JStr u) \<Rightarrow> True
           | Some v \<Rightarrow> \<not> truthy v)
      | _ \<Rightarrow> False)"

definition report_input_ok :: "json \<Rightarrow> bool" where
  \<comment> \<open>a record whose URL, when present and truthy, is a string, and whose response
      time, when it has such a URL, is absent or a number that converts to a float\<close>
  "report_input_ok entry = (url_ok entry \<and> (contributes entry \<longrightarrow> number_ok (time_of entry)))"

definition spec_input_ok :: "json \<Rightarrow> bool" where
  \<comment> \<open>the same with any JSON number as the response time\<close>
  "spec_input_ok entry =
     (url_ok entry \<and>
      (contributes entry \<longrightarrow>
         (case entry of
            JDict kvs \<Rightarrow>
              (case map_of kvs ''response_time'' of None \<Rightarrow> True | Some v \<Rightarrow> is_number v)
          | _ \<Rightarrow> False)))"

subsection \<open>What the reader returns and prints\<close>

definition decode_lines :: "decoder \<Rightarrow> string list \<Rightarrow> json list" where
  \<comment> \<open>the values of the lines that are not blank and that decode, in the order of the
      lines\<close>
  "decode_lines dec lines =
     concat (map (\<lambda>line. if strip line = [] then []
                         else case dec (strip line) of Inl msg \<Rightarrow> [] | Inr v \<Rightarrow> [v]) lines)"

definition line_warnings :: "decoder \<Rightarrow> string \<Rightarrow> nat \<Rightarrow> string list \<Rightarrow> string list" where
  \<comment> \<open>the warnings for the lines, numbered from \<open>n\<close>, that are not blank and do not decode\<close>
  "line_warnings dec file_path n lines =
     concat (map (\<lambda>(i, line). if strip line = [] then []
                              else case dec (strip line) of
                                     Inl msg \<Rightarrow>
                                       [''Warning: Invalid JSON in '' @ file_path @ '' at line '' @
                                        digits i @ '': '' @ msg]
                                   | Inr v \<Rightarrow> [])
                 (enumerate n lines))"

definition source_lines :: "source \<Rightarrow> string list" where
  \<comment> \<open>the lines that a source delivers\<close>
  "source_lines src = (case src of Opened lines e \<Rightarrow> lines | _ \<Rightarrow> [])"

definition source_messages :: "decoder \<Rightarrow> string \<Rightarrow> source \<Rightarrow> string list" where
  \<comment> \<open>what is printed for one source\<close>
  "source_messages dec file_path src =
     (case src of
        Missing \<Rightarrow> [''Warning: File '' @ file_path @ '' does not exist, skipping...'']
      | OpenFails msg \<Rightarrow> [''Error reading file '' @ file_path @ '': '' @ msg]
      | Opened lines e \<Rightarrow>
          line_warnings dec file_path 1 lines @
          (case e of
             ReadOSError msg \<Rightarrow> [''Error reading file '' @ file_path @ '': '' @ msg]
           | _ \<Rightarrow> []))"

definition decodes :: "source \<Rightarrow> bool" where
  \<comment> \<open>reading the source does not meet bytes that are not UTF-8\<close>
  "decodes src = (case src of Opened lines ReadUnicodeError \<Rightarrow> False | _ \<Rightarrow> True)"

section \<open>Example inputs\<close>

text \<open>
  Concrete records, files and arguments, used to run the definitions. The library
  functions are given by their values at the strings of the examples:
  \<open>example_parser\<close> holds what \<^verbatim>\<open>datetime.fromisoformat\<close> returns for three timestamps
  (any other string of the examples is one it rejects), and \<open>example_loads\<close> what
  \<^verbatim>\<open>json.loads\<close> returns for the lines of the example files.
\<close>

definition at_utc :: "nat \<Rightarrow> nat \<Rightarrow> nat \<Rightarrow> nat \<Rightarrow> nat \<Rightarrow> nat \<Rightarrow> int \<Rightarrow> datetime" where
  "at_utc y mo d h mi s off =
     \<lparr>year = y, month = mo, day = d, hour = h, minute = mi, second = s, microsecond = 0,
      utcoffset = Some off\<rparr>"

definition example_parser :: iso_parser where
  "example_parser =
     map_of
       [(''2025-06-22T20:03:08+00:00'', at_utc 2025 6 22 20 3 8 0),
        (''2025-06-23T20:03:08+00:00'', at_utc 2025 6 23 20 3 8 0),
        (''2025-06-22T23:30:00-05:00'', at_utc 2025 6 22 23 30 0 (- 18000000000))]"

definition rec_22 :: json where
  "rec_22 = JDict [(''@timestamp'', JStr ''2025-06-22T20:03:08Z''), (''url'', JStr ''/api/test1'')]"

definition rec_23 :: json where
  "rec_23 = JDict [(''@timestamp'', JStr ''2025-06-23T20:03:08+00:00''), (''url'', JStr ''/api/test2'')]"

definition rec_invalid :: json where
  "rec_invalid = JDict [(''@timestamp'', JStr ''invalid''), (''url'', JStr ''/api/test3'')]"

definition rec_late :: json where
  \<comment> \<open>half past eleven in the evening of 22 June at UTC-5, which is 23 June in UTC\<close>
  "rec_late = JDict [(''@timestamp'', JStr ''2025-06-22T23:30:00-05:00''), (''url'', JStr ''/late'')]"

definition rec_text_time :: json where
  "rec_text_time = JDict [(''url'', JStr ''/a''), (''response_time'', JStr ''fast'')]"

definition rec_inf_time :: json where
  \<comment> \<open>what \<^verbatim>\<open>json.loads\<close> returns for a response time written \<^verbatim>\<open>1e999\<close> or \<^verbatim>\<open>Infinity\<close>\<close>
  "rec_inf_time = JDict [(''url'', JStr ''/a''), (''response_time'', JFloat (Infty False))]"

definition rec_big_time :: json where
  \<comment> \<open>a response time written as the integer 1 followed by 400 zeros\<close>
  "rec_big_time = JDict [(''url'', JStr ''/a''), (''response_time'', JInt (10 ^ 400))]"

definition rec_time :: "string \<Rightarrow> rat \<Rightarrow> json" where
  \<comment> \<open>a record with a URL and a response time written as a decimal\<close>
  "rec_time u q = JDict [(''url'', JStr u), (''response_time'', JFloat (float_of_rat q))]"

definition rec_no_url :: json where
  "rec_no_url = JDict [(''response_time'', JFloat (float_of_rat (1 / 10)))]"

definition two_requests :: "json list" where
  \<comment> \<open>two requests to one endpoint, taking 0.1 and 0.2, and a record without a URL\<close>
  "two_requests =
     [rec_time ''/api/test?param=1'' (1 / 10), rec_time ''/api/test?param=2'' (2 / 10), rec_no_url]"

definition rec_int :: "string \<Rightarrow> int \<Rightarrow> json" where
  \<comment> \<open>a record with a URL and a response time written as an integer\<close>
  "rec_int u n = JDict [(''url'', JStr u), (''response_time'', JInt n)]"

definition ranking_requests :: "json list" where
  \<comment> \<open>endpoints with the counts 1, 3 and 1, in the order of their first request\<close>
  "ranking_requests =
     [rec_int ''/rare1'' 1, rec_int ''/common?a=1'' 1, rec_int ''/common'' 1, rec_no_url,
      rec_int ''/rare2'' 1, rec_int ''/common?b=2'' 1]"

definition average_requests :: "json list" where
  \<comment> \<open>two requests to one endpoint, taking 0.1 and 0.2\<close>
  "average_requests = [rec_time ''/api/test'' (1 / 10), rec_time ''/api/test'' (2 / 10)]"

definition rec_number_url :: json where
  "rec_number_url = JDict [(''url'', JInt 5)]"

definition example_tabulate :: formatter where
  \<comment> \<open>a stand-in for the library's formatter: one line per row, the cells separated by a
      space, after a line of headers\<close>
  "example_tabulate rows hs fmt al =
     concat (map (\<lambda>h. h @ '' '') hs) @
     concat (map (\<lambda>(i, e, c, a). [CHR 0x0A] @ digits i @ '' '' @ e @ '' '' @ digits (nat c) @ '' '' @ a) rows)"

definition line_22 :: string where
  \<open>line_22 = ''{"@timestamp": "2025-06-22T20:03:08Z", "url": "/api/test1"}'' @ [CHR 0x0A]\<close>

definition line_no_url :: string where
  \<open>line_no_url = ''{"response_time": 0.1}'' @ [CHR 0x0A]\<close>

definition line_bad :: string where
  \<open>line_bad = ''not json'' @ [CHR 0x0A]\<close>

definition example_loads :: decoder where
  \<open>example_loads line =
     (case map_of
             [(''{"@timestamp": "2025-06-22T20:03:08Z", "url": "/api/test1"}'', rec_22),
              (''{"response_time": 0.1}'', rec_no_url)] line of
        Some v \<Rightarrow> Inr v
      | None \<Rightarrow> Inl ''Expecting value: line 1 column 1 (char 0)'')\<close>

definition example_fs :: "string \<Rightarrow> source" where
  \<comment> \<open>\<^verbatim>\<open>bad.log\<close> holds bytes that are not UTF-8; \<^verbatim>\<open>empty.log\<close> holds a blank line\<close>
  "example_fs path =
     (case map_of
             [(''good.log'', Opened [line_22] Eof),
              (''mixed.log'', Opened [[CHR 0x0A], line_bad, line_22] Eof),
              (''nourl.log'', Opened [line_no_url] Eof),
              (''empty.log'', Opened [[CHR 0x0A]] Eof),
              (''locked.log'', OpenFails ''[Errno 13] Permission denied''),
              (''bad.log'', Opened [] ReadUnicodeError)] path of
        Some f \<Rightarrow> f
      | None \<Rightarrow> Missing)"

definition example_world :: world where
  "example_world =
     \<lparr>fs = example_fs, loads = example_loads,
      strptime_ok = (\<lambda>d. d = ''2025-06-22'' \<or> d = ''2025-06-23''),
      fromisoformat = example_parser, tabulate = example_tabulate\<rparr>"

definition example_args :: "string list \<Rightarrow> string \<Rightarrow> string option \<Rightarrow> args" where
  "example_args fl r d = \<lparr>files = fl, report = r, date = d\<rparr>"

section \<open>Properties of the float operations\<close>

lemma pow2_powi: "pow2 e = 2 powi e"
  by (simp add: pow2_def power_int_def field_simps)

lemma pow2_pos: "0 < pow2 e"
  by (simp add: pow2_powi)

lemma pow2_add: "pow2 (a + b) = pow2 a * pow2 b"
  by (simp add: pow2_powi power_int_add)

lemma pow2_mono: "a \<le> b \<Longrightarrow> pow2 a \<le> pow2 b"
  by (simp add: pow2_powi power_int_increasing)

lemma pow2_strict_mono: "a < b \<Longrightarrow> pow2 a < pow2 b"
  by (simp add: pow2_powi power_int_strict_increasing)

lemma pow2_nat: "pow2 (int n) = 2 ^ n"
  by (simp add: pow2_def)

lemma bit_length_bounds: "0 < n \<Longrightarrow> 2 ^ (bit_length n - 1) \<le> n \<and> n < 2 ^ bit_length n"
proof (induction n rule: bit_length.induct)
  case (1 n)
  show ?case
  proof (cases "n div 2 = 0")
    case True
    with 1 have "n = 1" by (simp add: div_eq_0_iff) 
    then show ?thesis by (simp add: bit_length.simps)
  next
    case False
    with 1 have ih: "2 ^ (bit_length (n div 2) - 1) \<le> n div 2" "n div 2 < 2 ^ bit_length (n div 2)"
      by auto
    have pos: "0 < bit_length (n div 2)" using False by (simp add: bit_length.simps)
    have bl: "bit_length n = Suc (bit_length (n div 2))" using 1 by (simp add: bit_length.simps)
    have e: "(2::nat) ^ bit_length (n div 2) = 2 * 2 ^ (bit_length (n div 2) - 1)" 
      using pos by (cases "bit_length (n div 2)") auto
    have "2 * (n div 2) \<le> n" "n < 2 * (n div 2) + 2" by presburger+
    then have "2 ^ bit_length (n div 2) \<le> n" "n < 2 * 2 ^ bit_length (n div 2)"
      using ih e by linarith+
    then show ?thesis using bl by simp
  qed
qed

lemma bit_length_pos: "0 < n \<Longrightarrow> 0 < bit_length n"
  by (simp add: bit_length.simps)

lemma bit_length_rat:
  assumes "0 < (a::int)"
  shows "pow2 (int (bit_length (nat a)) - 1) \<le> of_int a" "rat_of_int a < pow2 (int (bit_length (nat a)))"
proof -
  have n: "0 < nat a" using assms by simp
  from bit_length_pos[OF n] obtain k where k: "bit_length (nat a) = Suc k"
    by (cases "bit_length (nat a)") auto
  from bit_length_bounds[OF n] have b: "2 ^ k \<le> nat a" "nat a < 2 ^ Suc k"
    by (simp_all add: k)
  have a: "rat_of_int a = rat_of_nat (nat a)" using assms by simp
  have "rat_of_nat (2 ^ k) \<le> rat_of_nat (nat a)" using b(1) by (simp only: of_nat_le_iff)
  then have "pow2 (int k) \<le> of_int a" by (simp only: a pow2_nat of_nat_power of_nat_numeral)
  then show "pow2 (int (bit_length (nat a)) - 1) \<le> of_int a" by (simp add: k)
  have "rat_of_nat (nat a) < rat_of_nat (2 ^ Suc k)" using b(2) by (simp only: of_nat_less_iff)
  then have "rat_of_int a < pow2 (int (Suc k))" by (simp only: a pow2_nat of_nat_power of_nat_numeral)
  then show "rat_of_int a < pow2 (int (bit_length (nat a)))" by (simp only: k)
qed

lemma floor_log2_bounds:
  assumes "0 < q"
  shows "pow2 (floor_log2 q) \<le> q \<and> q < pow2 (floor_log2 q + 1)"
proof -
  obtain a b where ab: "quotient_of q = (a, b)" by (cases "quotient_of q")
  then have q: "q = of_int a / of_int b" and b: "0 < b"
    by (simp_all add: quotient_of_div quotient_of_denom_pos)
  have a: "0 < a" using assms q b by (simp add: zero_less_divide_iff)
  define la lb where "la = int (bit_length (nat a))" and "lb = int (bit_length (nat b))"
  define d where "d = la - lb"
  have A: "pow2 (la - 1) \<le> of_int a" "rat_of_int a < pow2 la"
    using bit_length_rat[OF a] by (simp_all add: la_def)
  have B: "pow2 (lb - 1) \<le> of_int b" "rat_of_int b < pow2 lb"
    using bit_length_rat[OF b] by (simp_all add: lb_def)
  have bp: "0 < rat_of_int b" using b by simp
  have lo: "pow2 (d - 1) < q"
  proof -
    have "pow2 (d - 1) * of_int b < pow2 (d - 1) * pow2 lb"
      using B(2) pow2_pos by simp
    also have "\<dots> = pow2 (la - 1)" by (simp add: pow2_add[symmetric] d_def)
    also have "\<dots> \<le> of_int a" by (rule A(1))
    finally show ?thesis using bp by (simp add: q pos_less_divide_eq)
  qed
  have hi: "q < pow2 (d + 1)"
  proof -
    have "rat_of_int a < pow2 la" by (rule A(2))
    also have "\<dots> = pow2 (d + 1) * pow2 (lb - 1)" by (simp add: pow2_add[symmetric] d_def)
    also have "\<dots> \<le> pow2 (d + 1) * of_int b" using B(1) pow2_pos by simp
    finally show ?thesis using bp by (simp add: q pos_divide_less_eq)
  qed
  have fl: "floor_log2 q = (if pow2 d \<le> q then d else d - 1)"
    by (simp add: floor_log2_def ab la_def lb_def d_def Let_def)
  show ?thesis using lo hi by (auto simp: fl)
qed

lemma floor_log2_unique:
  assumes "pow2 e \<le> q" "q < pow2 (e + 1)"
  shows "floor_log2 q = e"
proof -
  have qpos: "0 < q" using assms(1) pow2_pos[of e] by linarith
  from floor_log2_bounds[OF qpos]
  have b: "pow2 (floor_log2 q) \<le> q" "q < pow2 (floor_log2 q + 1)" by auto
  have "\<not> floor_log2 q + 1 \<le> e"
  proof
    assume "floor_log2 q + 1 \<le> e"
    then have "pow2 (floor_log2 q + 1) \<le> pow2 e" by (rule pow2_mono)
    with b(2) assms(1) show False by linarith
  qed
  moreover have "\<not> e + 1 \<le> floor_log2 q"
  proof
    assume "e + 1 \<le> floor_log2 q"
    then have "pow2 (e + 1) \<le> pow2 (floor_log2 q)" by (rule pow2_mono)
    with b(1) assms(2) show False by linarith
  qed
  ultimately show ?thesis by linarith
qed

lemma rhe_unique:
  assumes "\<bar>x - of_int n\<bar> < 1 / 2 \<or> (\<bar>x - of_int n\<bar> = 1 / 2 \<and> even n)"
  shows "round_half_even x = n"
proof -
  define f where "f = \<lfloor>x\<rfloor>"
  have fl: "of_int f \<le> x" "x < of_int f + 1" unfolding f_def by linarith+
  have cases: "f = n \<or> f = n - 1"
  proof -
    from assms have "\<bar>x - of_int n\<bar> \<le> 1 / 2" by auto
    then have "of_int n - 1 < x" "x < of_int n + 1" by linarith+
    with fl have "rat_of_int f < of_int (n + 1)" "rat_of_int (n - 1) < of_int (f + 1)" by simp_all
    then have "f < n + 1" "n - 1 < f + 1" by (simp_all only: of_int_less_iff)
    then show ?thesis by linarith
  qed
  show ?thesis
  proof (cases "f = n")
    case True
    then have "x - of_int f < 1 / 2 \<or> (x - of_int f = 1 / 2 \<and> even f)" using assms fl by auto
    then show ?thesis unfolding round_half_even_def f_def[symmetric] Let_def using True by auto
  next
    case False
    with cases have fn: "f = n - 1" by simp
    then have "x - of_int f = x - of_int n + 1" by simp
    moreover have "x - of_int n < 0" using fl fn by simp
    ultimately have "1 / 2 < x - of_int f \<or> (x - of_int f = 1 / 2 \<and> odd f)"
      using assms fn by auto
    then show ?thesis unfolding round_half_even_def f_def[symmetric] Let_def using fn by auto
  qed
qed

lemma rhe_bounds: "\<lfloor>x\<rfloor> \<le> round_half_even x \<and> round_half_even x \<le> \<lfloor>x\<rfloor> + 1"
  by (simp add: round_half_even_def Let_def)

lemma rhe_ge: "of_int n \<le> x \<Longrightarrow> n \<le> round_half_even x"
proof -
  assume "of_int n \<le> x"
  then have "n \<le> \<lfloor>x\<rfloor>" by (simp add: le_floor_iff)
  with rhe_bounds[of x] show ?thesis by linarith
qed

lemma rhe_of_int: "round_half_even (of_int n) = n"
  by (rule rhe_unique) simp

lemma rhe_le: "x \<le> of_int n \<Longrightarrow> round_half_even x \<le> n"
proof (cases "x = of_int n")
  case True
  then show ?thesis by (simp add: rhe_of_int)
next
  case False
  assume "x \<le> of_int n"
  with False have "x < of_int n" by simp
  then have "\<lfloor>x\<rfloor> < n" by (simp add: floor_less_iff)
  with rhe_bounds[of x] show ?thesis by linarith
qed

lemma round_double_eval:
  assumes "pow2 e \<le> q" "q < pow2 (e + 1)"
    and "e' = max e (- 1022)"
    and "\<bar>q / pow2 (e' - 52) - of_int m\<bar> < 1 / 2 \<or>
         (\<bar>q / pow2 (e' - 52) - of_int m\<bar> = 1 / 2 \<and> even m)"
    and "of_int m * pow2 (e' - 52) < pow2 1024"
  shows "round_double q = Some (of_int m * pow2 (e' - 52))"
proof -
  have qpos: "0 < q" using assms(1) pow2_pos[of e] by linarith
  have fl: "floor_log2 q = e" using assms(1,2) by (rule floor_log2_unique)
  have r: "round_half_even (q / pow2 (e' - 52)) = m" using assms(4) by (rule rhe_unique)
  show ?thesis
    using qpos assms(5) by (simp add: round_double_def fl Let_def assms(3)[symmetric] r)
qed

lemma round_double_overflow:
  assumes "pow2 1024 \<le> q"
  shows "round_double q = None"
proof -
  have qpos: "0 < q" using assms pow2_pos[of 1024] by linarith
  define e where "e = floor_log2 q"
  from floor_log2_bounds[OF qpos] have b: "pow2 e \<le> q" "q < pow2 (e + 1)" by (simp_all add: e_def)
  have "\<not> e + 1 \<le> 1024"
  proof
    assume "e + 1 \<le> 1024"
    then have "pow2 (e + 1) \<le> pow2 1024" by (rule pow2_mono)
    with b(2) assms show False by linarith
  qed
  then have e: "1024 \<le> e" by linarith
  then have mx: "max e (- 1022) = e" by simp
  define ulp where "ulp = pow2 (e - 52)"
  have up: "0 < ulp" by (simp add: ulp_def pow2_pos)
  have pu: "pow2 52 * ulp = pow2 e" by (simp add: ulp_def pow2_add[symmetric])
  then have "pow2 52 * ulp \<le> q" using b(1) by simp
  then have "pow2 52 \<le> q / ulp" using up by (simp add: pos_le_divide_eq)
  moreover have "pow2 52 = rat_of_int (2 ^ 52)" by (simp add: pow2_def)
  ultimately have "rat_of_int (2 ^ 52) \<le> q / ulp" by simp
  then have "2 ^ 52 \<le> round_half_even (q / ulp)" by (rule rhe_ge)
  then have "rat_of_int (2 ^ 52) \<le> of_int (round_half_even (q / ulp))" by (simp only: of_int_le_iff)
  then have "rat_of_int (2 ^ 52) * ulp \<le> of_int (round_half_even (q / ulp)) * ulp"
    using up by (simp only: mult_le_cancel_right_pos)
  moreover have "rat_of_int (2 ^ 52) * ulp = pow2 e"
    using pu by (simp only: \<open>pow2 52 = rat_of_int (2 ^ 52)\<close>)
  moreover have "pow2 1024 \<le> pow2 e" using e by (rule pow2_mono)
  ultimately have "pow2 1024 \<le> of_int (round_half_even (q / ulp)) * ulp" by linarith
  then show ?thesis
    using qpos by (simp add: round_double_def e_def[symmetric] mx Let_def ulp_def[symmetric])
qed

lemma round_double_fits:
  assumes "0 \<le> q" "q < pow2 1023"
  shows "\<exists>m. round_double q = Some m \<and> 0 \<le> m"
proof (cases "q = 0")
  case True
  then show ?thesis by (simp add: round_double_def)
next
  case False
  with assms have qpos: "0 < q" by simp
  define e where "e = floor_log2 q"
  from floor_log2_bounds[OF qpos] have b: "pow2 e \<le> q" "q < pow2 (e + 1)" by (simp_all add: e_def)
  have "\<not> 1023 \<le> e"
  proof
    assume "1023 \<le> e"
    then have "pow2 1023 \<le> pow2 e" by (rule pow2_mono)
    with b(1) assms(2) show False by linarith
  qed
  then have e: "e \<le> 1022" by linarith
  define e' where "e' = max e (- 1022)"
  have e': "e \<le> e'" "e' \<le> 1022" using e by (simp_all add: e'_def)
  define ulp where "ulp = pow2 (e' - 52)"
  have up: "0 < ulp" by (simp add: ulp_def pow2_pos)
  have p53: "pow2 53 = rat_of_int (2 ^ 53)" by (simp add: pow2_def)
  have pu: "pow2 53 * ulp = pow2 (e' + 1)"
    by (simp add: ulp_def pow2_add[symmetric] add.commute)
  have "pow2 (e + 1) \<le> pow2 (e' + 1)" using e'(1) by (intro pow2_mono) simp
  also have "\<dots> = pow2 53 * ulp" by (simp only: pu)
  finally have "q \<le> pow2 53 * ulp" using b(2) by linarith
  then have "q / ulp \<le> rat_of_int (2 ^ 53)" using up by (simp add: pos_divide_le_eq p53)
  then have "round_half_even (q / ulp) \<le> 2 ^ 53" by (rule rhe_le)
  then have "rat_of_int (round_half_even (q / ulp)) \<le> of_int (2 ^ 53)" by (simp only: of_int_le_iff)
  then have "of_int (round_half_even (q / ulp)) * ulp \<le> rat_of_int (2 ^ 53) * ulp"
    using up by (simp only: mult_le_cancel_right_pos)
  also have "\<dots> = pow2 (e' + 1)" using pu by (simp only: p53)
  also have "\<dots> \<le> pow2 1023" using e'(2) by (intro pow2_mono) simp
  also have "\<dots> < pow2 1024" by (intro pow2_strict_mono) simp
  finally have lt: "of_int (round_half_even (q / ulp)) * ulp < pow2 1024" .
  have "0 \<le> q / ulp" using qpos up by simp
  then have "rat_of_int 0 \<le> q / ulp" by simp
  then have "0 \<le> round_half_even (q / ulp)" by (rule rhe_ge)
  then have nn: "0 \<le> of_int (round_half_even (q / ulp)) * ulp" using up by simp
  show ?thesis
    using qpos lt nn
    by (simp add: round_double_def e_def[symmetric] e'_def[symmetric] Let_def ulp_def[symmetric])
qed

section \<open>The examples, evaluated\<close>

lemma read_good:
  "read_log_files example_fs example_loads [''good.log''] = ([], Inr [rec_22])"
  by (simp add: read_log_files_def example_fs_def example_loads_def strip_def line_22_def is_space_def)

lemma read_nourl:
  "read_log_files example_fs example_loads [''nourl.log''] = ([], Inr [rec_no_url])"
  by (simp add: read_log_files_def example_fs_def example_loads_def strip_def line_no_url_def is_space_def)

lemma read_empty:
  "read_log_files example_fs example_loads [''empty.log''] = ([], Inr [])"
  by (simp add: read_log_files_def example_fs_def strip_def is_space_def)

lemma read_mixed:
  "read_log_files example_fs example_loads [''missing.log'', ''mixed.log'', ''locked.log'', ''nourl.log'']
   = ([''Warning: File missing.log does not exist, skipping...'',
       ''Warning: Invalid JSON in mixed.log at line 2: Expecting value: line 1 column 1 (char 0)'',
       ''Error reading file locked.log: [Errno 13] Permission denied''],
      Inr [rec_22, rec_no_url])"
  by (simp add: read_log_files_def example_fs_def example_loads_def strip_def line_22_def line_bad_def line_no_url_def is_space_def digits.simps digit_char_def)

lemma filter_22: "filter_by_date example_parser [rec_22] ''2025-06-22'' = Inr [rec_22]"
  by (simp add: filter_by_date_def rec_22_def entry_date_def example_parser_def
     strftime_Ymd_def format_date_def at_utc_def zfill_def digits.simps digit_char_def)

lemma filter_23: "filter_by_date example_parser [rec_22] ''2025-06-23'' = Inr []"
  by (simp add: filter_by_date_def rec_22_def entry_date_def example_parser_def
     strftime_Ymd_def format_date_def at_utc_def zfill_def digits.simps digit_char_def)

lemma aggregate_no_url: "aggregate [] [rec_no_url] = Inr []"
  by (simp add: aggregate_entry_def rec_no_url_def)

lemma example_world_sel:
  "fs example_world = example_fs" "loads example_world = example_loads"
  "fromisoformat example_world = example_parser" "tabulate example_world = example_tabulate"
  "strptime_ok example_world d = (d = ''2025-06-22'' \<or> d = ''2025-06-23'')"
  by (simp_all add: example_world_def)

lemma example_args_sel:
  "files (example_args fl r d) = fl" "report (example_args fl r d) = r"
  "date_given (example_args fl r d) = (case d of None \<Rightarrow> False | Some x \<Rightarrow> x \<noteq> [])"
  "date_text (example_args fl r d) = (case d of None \<Rightarrow> [] | Some x \<Rightarrow> x)"
  by (simp_all add: example_args_def date_given_def date_text_def)

lemma before_good:
  "main_before_report example_world (example_args [''good.log''] r None) = Reporting [] [rec_22]"
  by (simp add: main_before_report_def example_world_sel example_args_sel read_good)

lemma before_nourl:
  "main_before_report example_world (example_args [''nourl.log''] r None) = Reporting [] [rec_no_url]"
  by (simp add: main_before_report_def example_world_sel example_args_sel read_nourl)

section \<open>Exit codes of the command\<close>

text \<open>
  C7, as the code has it. The command prints the message for an invalid date and exits
  with code 1 when a date that is not empty is given and \<^verbatim>\<open>strptime\<close> rejects it; it exits
  with code 1 when no record was read from any file; when the date is accepted, records
  were read and the date filter keeps none of them, it prints
  \<^verbatim>\<open>No log entries found for date\<close> with the date and exits with code 0, whatever the
  report type; it prints the message for an unknown report type and exits with code 1
  when the report type is not \<^verbatim>\<open>average\<close> and control reaches the report, that is, when
  records remain after reading and after the date filter, if there is one; and when the
  report is \<^verbatim>\<open>average\<close> and the aggregation of the records that remain yields the empty
  mapping, records are present and the output is exactly \<^verbatim>\<open>No valid endpoints found\<close>.
\<close>

theorem main_exit_codes:
  "(date_given a \<and> \<not> strptime_ok w (date_text a) \<longrightarrow>
      main w a = ([''Error: Invalid date format '' @ [CHR 0x27] @ date_text a @ [CHR 0x27] @
                   ''. Use YYYY-MM-DD format.''], SystemExit 1))
   \<and> (read_log_files (fs w) (loads w) (files a) = (out, Inr []) \<longrightarrow>
      exit_code (snd (main w a)) = 1)
   \<and> (\<not> (date_given a \<and> \<not> strptime_ok w (date_text a)) \<and>
      read_log_files (fs w) (loads w) (files a) = (out, Inr ents) \<and> ents \<noteq> [] \<and>
      date_given a \<and> filter_by_date (fromisoformat w) ents (date_text a) = Inr [] \<longrightarrow>
      main w a = (out @ [''No log entries found for date '' @ date_text a], SystemExit 0))
   \<and> (main_before_report w a = Reporting out ents \<and> report a \<noteq> ''average'' \<longrightarrow>
      main w a = (out @ [''Error: Unknown report type '' @ [CHR 0x27] @ report a @ [CHR 0x27] @
                         ''. Supported: average''], SystemExit 1))
   \<and> (main_before_report w a = Reporting out ents \<and> report a = ''average'' \<and>
      aggregate [] ents = Inr [] \<longrightarrow>
      ents \<noteq> [] \<and> main w a = (out @ [''No valid endpoints found''], Returned))"
proof (intro conjI impI)
  assume "date_given a \<and> \<not> strptime_ok w (date_text a)"
  then show "main w a = ([''Error: Invalid date format '' @ [CHR 0x27] @ date_text a @ [CHR 0x27] @
                   ''. Use YYYY-MM-DD format.''], SystemExit 1)"
    by (simp add: main_def main_before_report_def)
next
  assume "read_log_files (fs w) (loads w) (files a) = (out, Inr [])"
  then show "exit_code (snd (main w a)) = 1"
    by (simp add: main_def main_before_report_def exit_code_def)
next
  assume "\<not> (date_given a \<and> \<not> strptime_ok w (date_text a)) \<and>
      read_log_files (fs w) (loads w) (files a) = (out, Inr ents) \<and> ents \<noteq> [] \<and>
      date_given a \<and> filter_by_date (fromisoformat w) ents (date_text a) = Inr []"
  then show "main w a = (out @ [''No log entries found for date '' @ date_text a], SystemExit 0)"
    by (simp add: main_def main_before_report_def)
next
  assume "main_before_report w a = Reporting out ents \<and> report a \<noteq> ''average''"
  then show "main w a = (out @ [''Error: Unknown report type '' @ [CHR 0x27] @ report a @ [CHR 0x27] @
                         ''. Supported: average''], SystemExit 1)"
    by (simp add: main_def)
next
  assume h: "main_before_report w a = Reporting out ents \<and> report a = ''average'' \<and>
      aggregate [] ents = Inr []"
  then show "ents \<noteq> []"
    by (auto simp: main_before_report_def split: if_splits prod.splits sum.splits)
  then show "main w a = (out @ [''No valid endpoints found''], Returned)"
    using h by (simp add: main_def generate_average_report_def)
qed

theorem main_exit_codes_witness:
  "main example_world (example_args [''good.log''] ''average'' (Some ''22.06.2025'')) =
     ([''Error: Invalid date format '' @ [CHR 0x27] @ ''22.06.2025'' @ [CHR 0x27] @
       ''. Use YYYY-MM-DD format.''], SystemExit 1)
   \<and> exit_code (snd (main example_world (example_args [''empty.log''] ''average'' None))) = 1
   \<and> main example_world (example_args [''good.log''] ''average'' (Some ''2025-06-23'')) =
       ([''No log entries found for date 2025-06-23''], SystemExit 0)
   \<and> main example_world (example_args [''good.log''] ''bogus'' None) =
       ([''Error: Unknown report type '' @ [CHR 0x27] @ ''bogus'' @ [CHR 0x27] @
         ''. Supported: average''], SystemExit 1)
   \<and> main example_world (example_args [''nourl.log''] ''average'' None) =
       ([''No valid endpoints found''], Returned)"
proof (intro conjI)
  let ?w = example_world
  let ?a1 = "example_args [''good.log''] ''average'' (Some ''22.06.2025'')"
  have "date_given ?a1 \<and> \<not> strptime_ok ?w (date_text ?a1)"
    by (simp add: example_world_sel example_args_sel)
  with main_exit_codes[of ?a1 ?w]
  show "main ?w ?a1 = ([''Error: Invalid date format '' @ [CHR 0x27] @ ''22.06.2025'' @ [CHR 0x27] @
       ''. Use YYYY-MM-DD format.''], SystemExit 1)"
    by (simp add: example_args_sel)
next
  let ?w = example_world
  let ?a2 = "example_args [''empty.log''] ''average'' None"
  have "read_log_files (fs ?w) (loads ?w) (files ?a2) = ([], Inr [])"
    by (simp add: example_world_sel example_args_sel read_empty)
  with main_exit_codes[of ?a2 ?w "[]"]
  show "exit_code (snd (main ?w ?a2)) = 1" by simp
next
  let ?w = example_world
  let ?a3 = "example_args [''good.log''] ''average'' (Some ''2025-06-23'')"
  have "\<not> (date_given ?a3 \<and> \<not> strptime_ok ?w (date_text ?a3)) \<and>
      read_log_files (fs ?w) (loads ?w) (files ?a3) = ([], Inr [rec_22]) \<and> [rec_22] \<noteq> [] \<and>
      date_given ?a3 \<and> filter_by_date (fromisoformat ?w) [rec_22] (date_text ?a3) = Inr []"
    by (simp add: example_world_sel example_args_sel read_good filter_23)
  with main_exit_codes[of ?a3 ?w "[]" "[rec_22]"]
  show "main ?w ?a3 = ([''No log entries found for date 2025-06-23''], SystemExit 0)"
    by (simp add: example_args_sel)
next
  let ?w = example_world
  let ?a4 = "example_args [''good.log''] ''bogus'' None"
  have "main_before_report ?w ?a4 = Reporting [] [rec_22] \<and> report ?a4 \<noteq> ''average''"
    by (simp add: before_good example_args_sel)
  with main_exit_codes[of ?a4 ?w "[]" "[rec_22]"]
  show "main ?w ?a4 = ([''Error: Unknown report type '' @ [CHR 0x27] @ ''bogus'' @ [CHR 0x27] @
         ''. Supported: average''], SystemExit 1)"
    by (simp add: example_args_sel)
next
  let ?w = example_world
  let ?a5 = "example_args [''nourl.log''] ''average'' None"
  have "main_before_report ?w ?a5 = Reporting [] [rec_no_url] \<and> report ?a5 = ''average'' \<and>
      aggregate [] [rec_no_url] = Inr []"
    using aggregate_no_url by (simp add: before_nourl example_args_sel del: aggregate.simps)
  with main_exit_codes[of ?a5 ?w "[]" "[rec_no_url]"]
  show "main ?w ?a5 = ([''No valid endpoints found''], Returned)"
    by simp
qed

text \<open>
  C7 as the specification states it fails: with the report type \<^verbatim>\<open>bogus\<close>, which is not
  recognised, and a date that matches no record of the file, the command prints that no
  entries were found for the date and exits with code 0, not 1.
\<close>

theorem unknown_report_exit_0:
  "report (example_args [''good.log''] ''bogus'' (Some ''2025-06-23'')) \<noteq> ''average'' \<and>
   main example_world (example_args [''good.log''] ''bogus'' (Some ''2025-06-23'')) =
     ([''No log entries found for date 2025-06-23''], SystemExit 0) \<and>
   exit_code (snd (main example_world (example_args [''good.log''] ''bogus'' (Some ''2025-06-23'')))) \<noteq> 1"
  by (simp add: main_def main_before_report_def example_world_sel example_args_sel read_good
      filter_23 exit_code_def)

section \<open>The report is never asked for an empty list\<close>

text \<open>
  C10: \<open>main\<close> calls \<^verbatim>\<open>generate_average_report\<close> only where \<open>main_before_report\<close> ends in
  \<open>Reporting\<close>, and the entries it then passes are never the empty list: the call does
  not take the branch that returns \<^verbatim>\<open>No log entries found\<close>, and its result is that of
  the rest of the function.
\<close>

theorem report_entries_nonempty:
  assumes "main_before_report w a = Reporting out entries"
  shows "entries \<noteq> [] \<and>
         generate_average_report (tabulate w) entries =
           (case aggregate [] entries of
              Inl e \<Rightarrow> Inl e
            | Inr stats \<Rightarrow>
                if stats = [] then Inr ''No valid endpoints found''
                else case table_data stats of
                       Inl e \<Rightarrow> Inl e
                     | Inr rows \<Rightarrow> Inr (tabulate w rows headers ''plain'' colalign))"
proof -
  from assms have "entries \<noteq> []"
    by (auto simp: main_before_report_def split: if_splits prod.splits sum.splits)
  then show ?thesis by (simp add: generate_average_report_def)
qed

theorem report_entries_nonempty_witness:
  "main_before_report example_world (example_args [''good.log''] ''average'' None) =
     Reporting [] [rec_22] \<and> [rec_22] \<noteq> []"
  using report_entries_nonempty[of example_world "example_args [''good.log''] ''average'' None" "[]" "[rec_22]"]
  by (simp add: before_good)

section \<open>The date filter\<close>

lemma filter_loop_step:
  "filter_loop parse d acc (JDict kvs # rest) =
     filter_loop parse d (if on_date parse d (JDict kvs) then acc @ [JDict kvs] else acc) rest"
proof (cases "map_of kvs ''@timestamp''")
  case None
  then show ?thesis by (simp add: on_date_def)
next
  case (Some v)
  then show ?thesis
    by (cases v)
       (auto simp: on_date_def entry_date_def strftime_Ymd_def split: option.splits pyfloat.splits)
qed

lemma filter_loop_filter:
  assumes "\<forall>e \<in> set entries. is_dict e"
  shows "filter_loop parse d acc entries = Inr (acc @ filter (on_date parse d) entries)"
  using assms
proof (induction entries arbitrary: acc)
  case Nil
  then show ?case by simp
next
  case (Cons e entries)
  then obtain kvs where e: "e = JDict kvs" by (cases e) auto
  from Cons.prems have rest: "\<forall>e \<in> set entries. is_dict e" by simp
  show ?case
    unfolding e filter_loop_step
    by (simp add: Cons.IH[OF rest])
qed

lemma filter_by_date_not_dict:
  assumes "\<not> (\<forall>e \<in> set entries. is_dict e)"
  shows "filter_loop parse d acc entries = Inl AttributeError"
  using assms
proof (induction entries arbitrary: acc)
  case Nil
  then show ?case by simp
next
  case (Cons e entries)
  show ?case
  proof (cases e)
    case (JDict kvs)
    with Cons.prems have "\<not> (\<forall>e \<in> set entries. is_dict e)" by simp
    from Cons.IH[OF this] show ?thesis unfolding JDict filter_loop_step by simp
  qed simp_all
qed

lemma on_date_examples:
  "on_date example_parser ''2025-06-22'' rec_22"
  "\<not> on_date example_parser ''2025-06-22'' rec_23"
  "\<not> on_date example_parser ''2025-06-22'' rec_invalid"
  "\<not> on_date example_parser ''2025-06-22'' rec_no_url"
  "on_date example_parser ''2025-06-22'' rec_late"
  by (simp_all add: on_date_def rec_22_def rec_23_def rec_invalid_def rec_no_url_def rec_late_def
       example_parser_def format_date_def at_utc_def zfill_def digits.simps digit_char_def)

lemma spec_late: "spec_filter_by_date example_parser [rec_late] ''2025-06-22'' = []"
  by (simp add: spec_filter_by_date_def spec_on_date_def rec_late_def spec_timestamp_def
      example_parser_def at_utc_def utc_date_def next_day_def days_in_month_def format_date_def
      zfill_def digits.simps digit_char_def Let_def)

lemma code_late: "filter_by_date example_parser [rec_late] ''2025-06-22'' = Inr [rec_late]"
  by (simp add: filter_by_date_def rec_late_def entry_date_def example_parser_def
     strftime_Ymd_def format_date_def at_utc_def zfill_def digits.simps digit_char_def)

text \<open>
  C1, as the code has it. For every list of records (dicts) and every target string,
  \<^verbatim>\<open>filter_by_date\<close> returns, in the original order, exactly the records whose
  \<^verbatim>\<open>@timestamp\<close> is a string, not empty, that parses once every \<^verbatim>\<open>Z\<close> in it is replaced
  by \<^verbatim>\<open>+00:00\<close>, and whose date as the timestamp writes it, in the timestamp's own offset
  and formatted \<^verbatim>\<open>YYYY-MM-DD\<close>, is the target. A record without the field, with a value
  that is not a string, or with a value that does not parse is left out and nothing is
  raised. Nothing is normalised to UTC.
\<close>

theorem filter_by_date_on_date:
  assumes "\<forall>e \<in> set entries. is_dict e"
  shows "filter_by_date parse entries d = Inr (filter (on_date parse d) entries)"
  using filter_loop_filter[OF assms, of parse d "[]"] by (simp add: filter_by_date_def)

theorem filter_by_date_on_date_witness:
  "list_all is_dict [rec_22, rec_23, rec_invalid, rec_no_url, rec_late] \<and>
   filter_by_date example_parser [rec_22, rec_23, rec_invalid, rec_no_url, rec_late] ''2025-06-22'' =
     Inr [rec_22, rec_late]"
proof -
  have h: "\<forall>e \<in> set [rec_22, rec_23, rec_invalid, rec_no_url, rec_late]. is_dict e"
    by (simp add: rec_22_def rec_23_def rec_invalid_def rec_no_url_def rec_late_def)
  from filter_by_date_on_date[OF h, of example_parser "''2025-06-22''"] h
  show ?thesis by (simp add: on_date_examples list_all_iff)
qed

text \<open>
  C1 as the specification states it fails. The timestamp \<^verbatim>\<open>2025-06-22T23:30:00-05:00\<close> is
  04:30 on 23 June in UTC, so a filter on the UTC date keeps it for \<^verbatim>\<open>2025-06-23\<close> and
  drops it for \<^verbatim>\<open>2025-06-22\<close>; the code keeps it for \<^verbatim>\<open>2025-06-22\<close>.
\<close>

theorem filter_by_date_not_utc:
  "filter_by_date example_parser [rec_late] ''2025-06-22'' \<noteq>
     Inr (spec_filter_by_date example_parser [rec_late] ''2025-06-22'')"
  by (simp add: spec_late code_late)

section \<open>The aggregation\<close>

lemma split_char_nonempty: "split_char c s \<noteq> []"
  by (induction s) (auto split: list.splits)

lemma item0_split_char: "item0 (split_char c s) = Inr (takeWhile (\<lambda>x. x \<noteq> c) s)"
proof (induction s)
  case Nil
  show ?case by simp
next
  case (Cons x s)
  show ?case
  proof (cases "x = c")
    case True
    then show ?thesis by simp
  next
    case False
    obtain w ws where w: "split_char c s = w # ws"
      using split_char_nonempty[of c s] by (cases "split_char c s") auto
    with Cons have "w = takeWhile (\<lambda>x. x \<noteq> c) s" by simp
    with False w show ?thesis by simp
  qed
qed

lemma map_of_stats_store: "map_of (stats_store st k d) = (map_of st)(k \<mapsto> d)"
  by (induction st k d rule: stats_store.induct) auto

lemma stats_store_twice: "stats_store (stats_store st k d) k d' = stats_store st k d'"
  by (induction st k d rule: stats_store.induct) auto

lemma stats_store_append_new:
  "map_of st k = None \<Longrightarrow> stats_store (st @ [(k, d)]) k d' = stats_store st k d'"
  by (induction st k d' rule: stats_store.induct) (auto split: if_splits)

lemma keys_stats_store:
  "map fst (stats_store st k d) = (if k \<in> set (map fst st) then map fst st else map fst st @ [k])"
  by (induction st k d rule: stats_store.induct) auto

lemma stat_of_stats_store:
  "stat_of (stats_store st k d) k' = (if k' = k then d else stat_of st k')"
  by (simp add: stat_of_def map_of_stats_store)

lemma stat_update_all: "(d::stat)\<lparr>count := c, total_time := t\<rparr> = \<lparr>count = c, total_time = t\<rparr>"
  by (cases d) simp

lemma aggregate_entry_contributes:
  assumes "contributes entry"
  shows "aggregate_entry st entry =
           (case float_plus (total_time (stat_of st (key_of entry))) (time_of entry) of
              Inl e \<Rightarrow> Inl e
            | Inr t \<Rightarrow>
                Inr (stats_store st (key_of entry)
                       \<lparr>count = count (stat_of st (key_of entry)) + 1, total_time = t\<rparr>))"
proof -
  from assms obtain kvs where e: "entry = JDict kvs"
    by (cases entry) (auto simp: contributes_def)
  from assms e obtain v where v: "map_of kvs ''url'' = Some v"
    by (cases "map_of kvs ''url''") (auto simp: contributes_def)
  from assms e v obtain u where u: "map_of kvs ''url'' = Some (JStr u)" and ne: "u \<noteq> []"
    by (cases v) (auto simp: contributes_def)
  have k: "key_of entry = endpoint_of u" by (simp add: key_of_def e u)
  have rt: "(case map_of kvs ''response_time'' of
               None \<Rightarrow> Inr (JFloat (Finite False 0))
             | Some v \<Rightarrow> Inr v) = (Inr (time_of (JDict kvs)) :: error + json)"
    by (simp add: time_of_def split: option.splits)
  show ?thesis
  proof (cases "map_of st (endpoint_of u)")
    case None
    then show ?thesis
      by (simp add: aggregate_entry_def e u ne item0_split_char endpoint_of_def[symmetric] rt
          k[unfolded e] stats_getitem_def stat_of_def stats_store_append_new map_of_stats_store
          stats_store_twice default_stat_def split: sum.splits)
  next
    case (Some d)
    then show ?thesis
      by (simp add: aggregate_entry_def e u ne item0_split_char endpoint_of_def[symmetric] rt
          k[unfolded e] stats_getitem_def stat_of_def map_of_stats_store
          stats_store_twice stat_update_all split: sum.splits)
  qed
qed

lemma aggregate_entry_falsy_url:
  assumes "entry = JDict kvs"
    and "(case map_of kvs ''url'' of None \<Rightarrow> True | Some v \<Rightarrow> \<not> truthy v)"
  shows "aggregate_entry st entry = Inr st"
  using assms by (simp add: aggregate_entry_def split: option.splits)

lemma aggregate_entry_bad_url:
  assumes "entry = JDict kvs" and "map_of kvs ''url'' = Some v" and "truthy v"
    and "\<forall>u. v \<noteq> JStr u"
  shows "aggregate_entry st entry = Inl AttributeError"
  using assms by (cases v) (simp_all add: aggregate_entry_def)

lemma aggregate_entry_not_dict:
  "\<not> is_dict entry \<Longrightarrow> aggregate_entry st entry = Inl AttributeError"
  by (cases entry) (simp_all add: aggregate_entry_def)

lemma aggregate_entry_Inr:
  assumes "aggregate_entry st entry = Inr st'"
  shows "(contributes entry \<and>
          (\<exists>t. float_plus (total_time (stat_of st (key_of entry))) (time_of entry) = Inr t \<and>
               st' = stats_store st (key_of entry)
                       \<lparr>count = count (stat_of st (key_of entry)) + 1, total_time = t\<rparr>))
         \<or> (\<not> contributes entry \<and> st' = st)"
proof (cases "contributes entry")
  case True
  with assms show ?thesis
    by (auto simp: aggregate_entry_contributes split: sum.splits)
next
  case False
  from assms obtain kvs where e: "entry = JDict kvs"
    using aggregate_entry_not_dict[of entry st] by (cases entry) auto
  show ?thesis
  proof (cases "map_of kvs ''url''")
    case None
    with assms e False show ?thesis by (simp add: aggregate_entry_def)
  next
    case (Some v)
    show ?thesis
    proof (cases "truthy v")
      case t: True
      have "\<forall>u. v \<noteq> JStr u" using False e Some t by (auto simp: contributes_def)
      from aggregate_entry_bad_url[OF e Some t this] assms show ?thesis by simp
    next
      case f: False
      with assms e Some False show ?thesis by (simp add: aggregate_entry_def)
    qed
  qed
qed

lemma round_double_lower:
  assumes "pow2 k \<le> q" "- 1022 \<le> k" "round_double q = Some m"
  shows "pow2 k \<le> m"
proof -
  have qpos: "0 < q" using assms(1) pow2_pos[of k] by linarith
  define e where "e = floor_log2 q"
  from floor_log2_bounds[OF qpos] have b: "pow2 e \<le> q" "q < pow2 (e + 1)" by (simp_all add: e_def)
  have "\<not> e + 1 \<le> k"
  proof
    assume "e + 1 \<le> k"
    then have "pow2 (e + 1) \<le> pow2 k" by (rule pow2_mono)
    with b(2) assms(1) show False by linarith
  qed
  then have e: "k \<le> e" by linarith
  then have mx: "max e (- 1022) = e" using assms(2) by simp
  define ulp where "ulp = pow2 (e - 52)"
  have up: "0 < ulp" by (simp add: ulp_def pow2_pos)
  have p52: "pow2 52 = rat_of_int (2 ^ 52)" by (simp add: pow2_def)
  have pu: "pow2 52 * ulp = pow2 e" by (simp add: ulp_def pow2_add[symmetric])
  then have "pow2 52 * ulp \<le> q" using b(1) by simp
  then have "pow2 52 \<le> q / ulp" using up by (simp add: pos_le_divide_eq)
  then have "rat_of_int (2 ^ 52) \<le> q / ulp" by (simp only: p52)
  then have "2 ^ 52 \<le> round_half_even (q / ulp)" by (rule rhe_ge)
  then have "rat_of_int (2 ^ 52) \<le> of_int (round_half_even (q / ulp))" by (simp only: of_int_le_iff)
  then have "rat_of_int (2 ^ 52) * ulp \<le> of_int (round_half_even (q / ulp)) * ulp"
    using up by (simp only: mult_le_cancel_right_pos)
  moreover have "rat_of_int (2 ^ 52) * ulp = pow2 e" using pu by (simp only: p52)
  moreover have "pow2 k \<le> pow2 e" using e by (rule pow2_mono)
  ultimately have lo: "pow2 k \<le> of_int (round_half_even (q / ulp)) * ulp" by linarith
  from assms(3) qpos have "m = of_int (round_half_even (q / ulp)) * ulp"
    by (simp add: round_double_def e_def[symmetric] mx Let_def ulp_def[symmetric] split: if_splits)
  with lo show ?thesis by simp
qed

lemma float_of_int_pos:
  assumes "1 \<le> n" "float_of_int n = Inr c"
  shows "\<exists>m. c = Finite False m \<and> 1 \<le> m"
proof -
  from assms(2) obtain m where m: "round_double \<bar>rat_of_int n\<bar> = Some m" and c: "c = Finite (n < 0) m"
    by (auto simp: float_of_int_def split: option.splits)
  have "pow2 0 \<le> \<bar>rat_of_int n\<bar>" using assms(1) by (simp add: pow2_def)
  from round_double_lower[OF this _ m] have "1 \<le> m" by (simp add: pow2_def)
  with c assms(1) show ?thesis by simp
qed

lemma float_truediv_nonzero:
  "b \<noteq> 0 \<Longrightarrow> float_truediv x (Finite t b) \<noteq> Inl e"
  by (cases x) (auto split: option.splits)

lemma avg_time_positive:
  assumes "1 \<le> count d"
  shows "avg_time d =
           (case float_of_int (count d) of
              Inl e \<Rightarrow> Inl e
            | Inr c \<Rightarrow> float_truediv (total_time d) c)"
    and "avg_time d \<noteq> Inl ZeroDivisionError"
proof -
  show eq: "avg_time d =
           (case float_of_int (count d) of
              Inl e \<Rightarrow> Inl e
            | Inr c \<Rightarrow> float_truediv (total_time d) c)"
    using assms by (simp add: avg_time_def)
  show "avg_time d \<noteq> Inl ZeroDivisionError"
  proof (cases "float_of_int (count d)")
    case (Inl e)
    then have "e = OverflowError" by (auto simp: float_of_int_def split: option.splits)
    with Inl eq show ?thesis by simp
  next
    case (Inr c)
    from float_of_int_pos[OF assms Inr] obtain m where "c = Finite False m" "1 \<le> m" by auto
    with Inr eq float_truediv_nonzero[of m "total_time d" False ZeroDivisionError]
    show ?thesis by simp
  qed
qed

lemma aggregate_Cons_Inr:
  assumes "aggregate st0 (e # entries) = Inr st"
  obtains st1 where "aggregate_entry st0 e = Inr st1" "aggregate st1 entries = Inr st"
  using assms by (auto split: sum.splits)

lemma aggregate_count:
  assumes "aggregate st0 entries = Inr st"
  shows "count (stat_of st k) =
           count (stat_of st0 k) + int (length (filter (\<lambda>e. contributes e \<and> key_of e = k) entries))"
  using assms
proof (induction entries arbitrary: st0)
  case Nil
  then show ?case by simp
next
  case (Cons e entries)
  from Cons.prems obtain st1 where s1: "aggregate_entry st0 e = Inr st1"
    and rest: "aggregate st1 entries = Inr st" by (rule aggregate_Cons_Inr)
  note ih = Cons.IH[OF rest]
  from aggregate_entry_Inr[OF s1] show ?case
  proof (elim disjE conjE exE)
    fix t
    assume c: "contributes e"
      and st1: "st1 = stats_store st0 (key_of e)
                  \<lparr>count = count (stat_of st0 (key_of e)) + 1, total_time = t\<rparr>"
    show ?thesis using ih c by (simp add: st1 stat_of_stats_store)
  next
    assume "\<not> contributes e" "st1 = st0"
    then show ?thesis using ih by simp
  qed
qed

lemma aggregate_total:
  assumes "aggregate st0 entries = Inr st"
  shows "sum_times (total_time (stat_of st0 k))
           (map time_of (filter (\<lambda>e. contributes e \<and> key_of e = k) entries)) =
         Inr (total_time (stat_of st k))"
  using assms
proof (induction entries arbitrary: st0)
  case Nil
  then show ?case by simp
next
  case (Cons e entries)
  from Cons.prems obtain st1 where s1: "aggregate_entry st0 e = Inr st1"
    and rest: "aggregate st1 entries = Inr st" by (rule aggregate_Cons_Inr)
  note ih = Cons.IH[OF rest]
  from aggregate_entry_Inr[OF s1] show ?case
  proof (elim disjE conjE exE)
    fix t
    assume c: "contributes e"
      and t: "float_plus (total_time (stat_of st0 (key_of e))) (time_of e) = Inr t"
      and st1: "st1 = stats_store st0 (key_of e)
                  \<lparr>count = count (stat_of st0 (key_of e)) + 1, total_time = t\<rparr>"
    show ?thesis using ih c t by (auto simp: st1 stat_of_stats_store)
  next
    assume "\<not> contributes e" "st1 = st0"
    then show ?thesis using ih by simp
  qed
qed

lemma remdups_drop_known: "k \<in> set ys \<Longrightarrow> remdups (xs @ k # ys) = remdups (xs @ ys)"
  by (induction xs) auto

lemma discovery_order_snoc:
  "discovery_order (ks @ k # rest) =
     discovery_order ((if k \<in> set ks then ks else ks @ [k]) @ rest)"
  by (simp add: discovery_order_def remdups_drop_known)

lemma discovery_order_distinct: "distinct ks \<Longrightarrow> discovery_order ks = ks"
  by (simp add: discovery_order_def distinct_remdups_id)

lemma distinct_discovery_order: "distinct (discovery_order ks)"
  by (simp add: discovery_order_def)

lemma set_discovery_order: "set (discovery_order ks) = set ks"
  by (simp add: discovery_order_def)

lemma aggregate_keys:
  assumes "aggregate st0 entries = Inr st" and "distinct (map fst st0)"
  shows "map fst st = discovery_order (map fst st0 @ map key_of (filter contributes entries))"
  using assms
proof (induction entries arbitrary: st0)
  case Nil
  then show ?case by (simp add: discovery_order_distinct)
next
  case (Cons e entries)
  from Cons.prems(1) obtain st1 where s1: "aggregate_entry st0 e = Inr st1"
    and rest: "aggregate st1 entries = Inr st" by (rule aggregate_Cons_Inr)
  from aggregate_entry_Inr[OF s1] show ?case
  proof (elim disjE conjE exE)
    fix t
    assume c: "contributes e"
      and st1: "st1 = stats_store st0 (key_of e)
                  \<lparr>count = count (stat_of st0 (key_of e)) + 1, total_time = t\<rparr>"
    have k1: "map fst st1 =
                (if key_of e \<in> set (map fst st0) then map fst st0 else map fst st0 @ [key_of e])"
      by (simp only: st1 keys_stats_store)
    then have d1: "distinct (map fst st1)" using Cons.prems(2) by auto
    have "map fst st = discovery_order (map fst st1 @ map key_of (filter contributes entries))"
      by (rule Cons.IH[OF rest d1])
    also have "\<dots> = discovery_order (map fst st0 @ key_of e # map key_of (filter contributes entries))"
      by (simp only: k1 discovery_order_snoc[symmetric])
    finally show ?thesis using c by simp
  next
    assume "\<not> contributes e" "st1 = st0"
    then show ?thesis using Cons.IH[OF rest] Cons.prems(2) by simp
  qed
qed

lemma in_stats_stat_of:
  "distinct (map fst st) \<Longrightarrow> (k, d) \<in> set st \<Longrightarrow> stat_of st k = d"
  by (simp add: stat_of_def)

lemma stat_of_empty: "stat_of [] k = default_stat"
  by (simp add: stat_of_def)

lemma aggregate_distinct:
  assumes "aggregate [] entries = Inr st"
  shows "map fst st = discovery_order (map key_of (filter contributes entries))"
    and "distinct (map fst st)"
proof -
  show "map fst st = discovery_order (map key_of (filter contributes entries))"
    using aggregate_keys[OF assms] by simp
  then show "distinct (map fst st)" by (simp add: distinct_discovery_order)
qed

lemma aggregate_in_stats:
  assumes "aggregate [] entries = Inr st" and "(k, d) \<in> set st"
  shows "count d = int (length (filter (\<lambda>e. contributes e \<and> key_of e = k) entries))"
    and "sum_times (Finite False 0)
           (map time_of (filter (\<lambda>e. contributes e \<and> key_of e = k) entries)) =
           Inr (total_time d)"
    and "1 \<le> count d"
proof -
  note keys = aggregate_distinct[OF assms(1)]
  from in_stats_stat_of[OF keys(2) assms(2)] have d: "stat_of st k = d" .
  show cnt: "count d = int (length (filter (\<lambda>e. contributes e \<and> key_of e = k) entries))"
    using aggregate_count[OF assms(1), of k] by (simp add: d stat_of_empty default_stat_def)
  show "sum_times (Finite False 0)
           (map time_of (filter (\<lambda>e. contributes e \<and> key_of e = k) entries)) =
           Inr (total_time d)"
    using aggregate_total[OF assms(1), of k] by (simp add: d stat_of_empty default_stat_def)
  have "k \<in> set (map fst st)" using assms(2) by force
  then have "k \<in> key_of ` set (filter contributes entries)"
    by (simp add: keys(1) set_discovery_order)
  then obtain e where "e \<in> set entries" "contributes e" "key_of e = k" by auto
  then have "filter (\<lambda>e. contributes e \<and> key_of e = k) entries \<noteq> []"
    by (auto simp: filter_empty_conv)
  then show "1 \<le> count d" by (simp add: cnt Suc_le_eq)
qed

text \<open>
  C6: when the aggregation of a list of entries returns a mapping, every endpoint in the
  mapping has as its count the number of contributing records grouped under it (the
  records with a URL that is a string, not empty, whose part before the first \<^verbatim>\<open>?\<close> is
  the endpoint), and as its total the sum of their response times, added from left to
  right in float arithmetic from 0.0. The count is at least 1, so the average is the
  quotient of the total by the count, the branch for a count of zero is not taken, and
  the division does not divide by zero.
\<close>

theorem aggregate_counts_and_totals:
  assumes "aggregate [] entries = Inr st" and "(k, d) \<in> set st"
  shows "count d = int (length (filter (\<lambda>e. contributes e \<and> key_of e = k) entries)) \<and>
         sum_times (Finite False 0)
           (map time_of (filter (\<lambda>e. contributes e \<and> key_of e = k) entries)) =
           Inr (total_time d) \<and>
         1 \<le> count d \<and>
         avg_time d =
           (case float_of_int (count d) of
              Inl e \<Rightarrow> Inl e
            | Inr c \<Rightarrow> float_truediv (total_time d) c) \<and>
         avg_time d \<noteq> Inl ZeroDivisionError"
proof -
  note f = aggregate_in_stats[OF assms]
  show ?thesis using f avg_time_positive[OF f(3)] by simp
qed

lemma round_double_1_10:
  "round_double (1 / 10) = Some (3602879701896397 / 36028797018963968)"
  using round_double_eval[of "- 4" "1 / 10" "- 4" 7205759403792794]
  by (simp add: pow2_def)

lemma round_double_1_5:
  "round_double (1 / 5) = Some (3602879701896397 / 18014398509481984)"
  using round_double_eval[of "- 3" "1 / 5" "- 3" 7205759403792794]
  by (simp add: pow2_def)

lemma round_double_d01:
  "round_double (3602879701896397 / 36028797018963968) = Some (3602879701896397 / 36028797018963968)"
  using round_double_eval[of "- 4" "3602879701896397 / 36028797018963968" "- 4" 7205759403792794]
  by (simp add: pow2_def)

lemma round_double_sum:
  "round_double (10808639105689191 / 36028797018963968) = Some (1351079888211149 / 4503599627370496)"
  using round_double_eval[of "- 2" "10808639105689191 / 36028797018963968" "- 2" 5404319552844596]
  by (simp add: pow2_def)

lemma round_double_half_sum:
  "round_double (1351079888211149 / 9007199254740992) = Some (1351079888211149 / 9007199254740992)"
  using round_double_eval[of "- 3" "1351079888211149 / 9007199254740992" "- 3" 5404319552844596]
  by (simp add: pow2_def)

lemma round_double_1: "round_double 1 = Some 1"
  using round_double_eval[of 0 1 0 4503599627370496]
  by (simp add: pow2_def)

lemma round_double_2: "round_double 2 = Some 2"
  using round_double_eval[of 1 2 1 4503599627370496]
  by (simp add: pow2_def)

lemma float_of_rat_1_10:
  "float_of_rat (1 / 10) = Finite False (3602879701896397 / 36028797018963968)"
  by (simp add: float_of_rat_def round_double_1_10)

lemma float_of_rat_1_5:
  "float_of_rat (1 / 5) = Finite False (3602879701896397 / 18014398509481984)"
  by (simp add: float_of_rat_def round_double_1_5)

lemma float_add_0_d01:
  "float_add (Finite False 0) (Finite False (3602879701896397 / 36028797018963968)) =
     Finite False (3602879701896397 / 36028797018963968)"
  by (simp add: signed_def round_double_d01)

lemma float_add_d01_d02:
  "float_add (Finite False (3602879701896397 / 36028797018963968))
             (Finite False (3602879701896397 / 18014398509481984)) =
     Finite False (1351079888211149 / 4503599627370496)"
  by (simp add: signed_def round_double_sum)

lemma float_of_int_1: "float_of_int 1 = Inr (Finite False 1)"
  by (simp add: float_of_int_def round_double_1)

lemma float_of_int_2: "float_of_int 2 = Inr (Finite False 2)"
  by (simp add: float_of_int_def round_double_2)

lemma float_truediv_sum_2:
  "float_truediv (Finite False (1351079888211149 / 4503599627370496)) (Finite False 2) =
     Inr (Finite False (1351079888211149 / 9007199254740992))"
  by (simp add: round_double_half_sum)

lemma format_3f_avg:
  "format_3f (Finite False (1351079888211149 / 9007199254740992)) = ''0.150''"
proof -
  have "round_half_even (1351079888211149 / 9007199254740992 * 1000) = 150"
    by (rule rhe_unique) simp
  then show ?thesis by (simp add: format_3f_def digits.simps digit_char_def)
qed

lemma aggregate_example:
  "aggregate [] two_requests =
     Inr [(''/api/test'', \<lparr>count = 2, total_time = Finite False (1351079888211149 / 4503599627370496)\<rparr>)]"
  by (simp add: two_requests_def aggregate_entry_def rec_time_def rec_no_url_def float_of_rat_1_10 float_of_rat_1_5
      stats_getitem_def default_stat_def float_add_0_d01 float_add_d01_d02 del: float_add.simps)

lemma table_data_example:
  "table_data [(''/api/test'', \<lparr>count = 2, total_time = Finite False (1351079888211149 / 4503599627370496)\<rparr>)] =
     Inr [(0, ''/api/test'', 2, ''0.150'')]"
  by (simp add: table_data_def avg_time_def float_of_int_2 float_truediv_sum_2 format_3f_avg
      sort_reverse_def enumerate_eq_zip del: float_truediv.simps)

lemma round_double_0: "round_double 0 = Some 0"
  by (simp add: round_double_def)

lemma float_of_int_0: "float_of_int 0 = Inr (Finite False 0)"
  by (simp add: float_of_int_def round_double_0)

lemma float_plus_number_ok:
  assumes "number_ok v"
  shows "\<exists>t. float_plus x v = Inr t"
proof (cases v)
  case (JBool b)
  then show ?thesis by (cases b) (simp_all add: float_of_int_0 float_of_int_1)
next
  case (JInt n)
  with assms show ?thesis by (cases "float_of_int n") (simp_all add: number_ok_def)
next
  case (JFloat y)
  then show ?thesis by simp
qed (use assms in \<open>simp_all add: number_ok_def\<close>)

lemma time_of_absent:
  "map_of kvs ''response_time'' = None \<Longrightarrow> time_of (JDict kvs) = JFloat (Finite False 0)"
  by (simp add: time_of_def)

text \<open>
  C2, as the code has it. For every record that contributes (its URL is a string and is
  not empty) and whose response time is absent or is a number (a float, or an int or bool
  that converts to a float), the step of the loop returns a mapping in which the count of
  the record's endpoint has grown by 1 and its total is the float sum of the old total and
  the response time, 0.0 when the record has none; no other endpoint changes.
\<close>

theorem aggregate_entry_adds:
  assumes "contributes entry" and "number_ok (time_of entry)"
  shows "\<exists>st' t. aggregate_entry st entry = Inr st' \<and>
           float_plus (total_time (stat_of st (key_of entry))) (time_of entry) = Inr t \<and>
           stat_of st' (key_of entry) =
             \<lparr>count = count (stat_of st (key_of entry)) + 1, total_time = t\<rparr> \<and>
           (\<forall>k. k \<noteq> key_of entry \<longrightarrow> stat_of st' k = stat_of st k) \<and>
           (\<forall>kvs. entry = JDict kvs \<and> map_of kvs ''response_time'' = None \<longrightarrow>
              t = float_add (total_time (stat_of st (key_of entry))) (Finite False 0))"
proof -
  from float_plus_number_ok[OF assms(2)] obtain t
    where t: "float_plus (total_time (stat_of st (key_of entry))) (time_of entry) = Inr t" by blast
  let ?st' = "stats_store st (key_of entry)
                \<lparr>count = count (stat_of st (key_of entry)) + 1, total_time = t\<rparr>"
  have "aggregate_entry st entry = Inr ?st'"
    by (simp add: aggregate_entry_contributes[OF assms(1)] t)
  moreover have "\<forall>kvs. entry = JDict kvs \<and> map_of kvs ''response_time'' = None \<longrightarrow>
              t = float_add (total_time (stat_of st (key_of entry))) (Finite False 0)"
    using t by (auto simp: time_of_absent)
  ultimately show ?thesis using t by (auto simp: stat_of_stats_store)
qed

lemma contributes_rec_time: "u \<noteq> [] \<Longrightarrow> contributes (rec_time u q)"
  by (simp add: contributes_def rec_time_def)

lemma key_of_rec_time: "key_of (rec_time u q) = endpoint_of u"
  by (simp add: key_of_def rec_time_def)

lemma time_of_rec_time: "time_of (rec_time u q) = JFloat (float_of_rat q)"
  by (simp add: time_of_def rec_time_def)

theorem aggregate_entry_adds_witness:
  "contributes (rec_time ''/api/test?param=1'' (1 / 10)) \<and>
   number_ok (time_of (rec_time ''/api/test?param=1'' (1 / 10))) \<and>
   (\<exists>st'. aggregate_entry [] (rec_time ''/api/test?param=1'' (1 / 10)) = Inr st' \<and>
      stat_of st' ''/api/test'' =
        \<lparr>count = 1, total_time = Finite False (3602879701896397 / 36028797018963968)\<rparr>)"
proof -
  let ?r = "rec_time ''/api/test?param=1'' (1 / 10)"
  have c: "contributes ?r" by (simp add: contributes_rec_time)
  have n: "number_ok (time_of ?r)" by (simp add: time_of_rec_time number_ok_def)
  have k: "key_of ?r = ''/api/test''" by (simp add: key_of_rec_time endpoint_of_def)
  from aggregate_entry_adds[OF c n, of "[]"] c n show ?thesis
    by (auto simp: k time_of_rec_time float_of_rat_1_10 stat_of_empty default_stat_def
        float_add_0_d01 simp del: float_add.simps)
qed

text \<open>
  C2 as the specification states it fails: a response time that is not a number is not
  replaced by 0.0. The record with the URL \<^verbatim>\<open>/a\<close> and the response time \<^verbatim>\<open>"fast"\<close>
  contributes, and the step raises \<^verbatim>\<open>TypeError\<close>, where the specification counts the
  record with a time of 0.0.
\<close>

theorem text_response_time_raises:
  "contributes rec_text_time \<and>
   aggregate_entry [] rec_text_time = Inl TypeError \<and>
   spec_aggregate_entry [] rec_text_time =
     Inr [(''/a'', \<lparr>count = 1, total_time = Finite False 0\<rparr>)]"
  by (simp add: contributes_def rec_text_time_def aggregate_entry_def stats_getitem_def
      default_stat_def spec_aggregate_entry_def key_of_def endpoint_of_def stat_of_def
      spec_time_of_def time_of_def signed_def)

lemma endpoint_of_idem: "endpoint_of (endpoint_of u) = endpoint_of u"
  by (simp add: endpoint_of_def)

lemma endpoint_of_query: "CHR ''?'' \<notin> set p \<Longrightarrow> endpoint_of (p @ ''?'' @ q) = p"
  by (induction p) (auto simp: endpoint_of_def)

text \<open>
  C5: the key under which a record is aggregated is the first item of the split of its
  URL at \<^verbatim>\<open>?\<close>, which is the part of the URL before the first \<^verbatim>\<open>?\<close> and the whole URL
  when there is none; a step that succeeds on a contributing record counts it under that
  key and touches no other key. Stripping is idempotent, two URLs that differ only after
  the \<^verbatim>\<open>?\<close> have the same key, and a record whose URL is absent or empty leaves the
  mapping as it is.
\<close>

theorem endpoint_strips_query:
  "(str_split (JStr u) CHR ''?'' = Inr parts \<longrightarrow>
      item0 parts = Inr (takeWhile (\<lambda>c. c \<noteq> CHR ''?'') u))
   \<and> (contributes entry \<and> aggregate_entry st entry = Inr st' \<longrightarrow>
        (\<exists>kvs v. entry = JDict kvs \<and> map_of kvs ''url'' = Some (JStr v) \<and>
                 key_of entry = takeWhile (\<lambda>c. c \<noteq> CHR ''?'') v) \<and>
        count (stat_of st' (key_of entry)) = count (stat_of st (key_of entry)) + 1 \<and>
        (\<forall>k. k \<noteq> key_of entry \<longrightarrow> stat_of st' k = stat_of st k))
   \<and> endpoint_of (endpoint_of u) = endpoint_of u
   \<and> (CHR ''?'' \<notin> set p \<longrightarrow> endpoint_of (p @ ''?'' @ q) = p)
   \<and> (entry = JDict kvs \<and> (map_of kvs ''url'' = None \<or> map_of kvs ''url'' = Some (JStr [])) \<longrightarrow>
        aggregate_entry st entry = Inr st)"
proof (intro conjI impI)
  assume "str_split (JStr u) CHR ''?'' = Inr parts"
  then show "item0 parts = Inr (takeWhile (\<lambda>c. c \<noteq> CHR ''?'') u)"
    by (auto simp: item0_split_char)
next
  assume h: "contributes entry \<and> aggregate_entry st entry = Inr st'"
  then obtain kvs where e: "entry = JDict kvs" by (cases entry) (auto simp: contributes_def)
  from h e obtain w where w: "map_of kvs ''url'' = Some w"
    by (cases "map_of kvs ''url''") (auto simp: contributes_def)
  from h e w obtain v where v: "w = JStr v" by (cases w) (auto simp: contributes_def)
  show "\<exists>kvs v. entry = JDict kvs \<and> map_of kvs ''url'' = Some (JStr v) \<and>
                 key_of entry = takeWhile (\<lambda>c. c \<noteq> CHR ''?'') v"
    using e w v by (simp add: key_of_def endpoint_of_def)
  from h aggregate_entry_Inr[of st entry st'] obtain t where
    st': "st' = stats_store st (key_of entry)
                  \<lparr>count = count (stat_of st (key_of entry)) + 1, total_time = t\<rparr>"
    by auto
  show "count (stat_of st' (key_of entry)) = count (stat_of st (key_of entry)) + 1"
    by (simp add: st' stat_of_stats_store)
  show "\<forall>k. k \<noteq> key_of entry \<longrightarrow> stat_of st' k = stat_of st k"
    by (simp add: st' stat_of_stats_store)
next
  show "endpoint_of (endpoint_of u) = endpoint_of u" by (rule endpoint_of_idem)
next
  assume "CHR ''?'' \<notin> set p"
  then show "endpoint_of (p @ ''?'' @ q) = p" by (rule endpoint_of_query)
next
  assume "entry = JDict kvs \<and> (map_of kvs ''url'' = None \<or> map_of kvs ''url'' = Some (JStr []))"
  then show "aggregate_entry st entry = Inr st"
    by (auto simp: aggregate_entry_def)
qed

lemma aggregate_entry_example:
  "aggregate_entry [] (rec_time ''/api/test?param=1'' (1 / 10)) =
     Inr [(''/api/test'', \<lparr>count = 1, total_time = Finite False (3602879701896397 / 36028797018963968)\<rparr>)]"
  by (simp add: aggregate_entry_def rec_time_def float_of_rat_1_10
      stats_getitem_def default_stat_def float_add_0_d01 del: float_add.simps)

theorem endpoint_strips_query_witness:
  "str_split (JStr ''/api/test?param=1'') CHR ''?'' = Inr [''/api/test'', ''param=1''] \<and>
   item0 [''/api/test'', ''param=1''] = Inr ''/api/test'' \<and>
   contributes (rec_time ''/api/test?param=1'' (1 / 10)) \<and>
   (\<exists>st'. aggregate_entry [] (rec_time ''/api/test?param=1'' (1 / 10)) = Inr st' \<and>
          count (stat_of st' ''/api/test'') = 1 \<and> stat_of st' ''/api/other'' = default_stat) \<and>
   CHR ''?'' \<notin> set ''/api/test'' \<and>
   endpoint_of (''/api/test'' @ ''?'' @ ''param=2'') = ''/api/test'' \<and>
   aggregate_entry [(''/x'', default_stat)] rec_no_url = Inr [(''/x'', default_stat)]"
proof -
  let ?r = "rec_time ''/api/test?param=1'' (1 / 10)"
  let ?st' = "[(''/api/test'',
                \<lparr>count = 1, total_time = Finite False (3602879701896397 / 36028797018963968)\<rparr>)]"
  have s: "str_split (JStr ''/api/test?param=1'') CHR ''?'' = Inr [''/api/test'', ''param=1'']"
    by simp
  have c: "contributes ?r" by (simp add: contributes_rec_time)
  have a: "aggregate_entry [] ?r = Inr ?st'" by (rule aggregate_entry_example)
  have k: "key_of ?r = ''/api/test''" by (simp add: key_of_rec_time endpoint_of_def)
  have q: "CHR ''?'' \<notin> set ''/api/test''" by simp
  have n: "rec_no_url = JDict [(''response_time'', JFloat (float_of_rat (1 / 10)))] \<and>
           (map_of [(''response_time'', JFloat (float_of_rat (1 / 10)))] ''url'' = None \<or>
            map_of [(''response_time'', JFloat (float_of_rat (1 / 10)))] ''url'' = Some (JStr []))"
    by (simp add: rec_no_url_def)
  note t1 = endpoint_strips_query[where u = "''/api/test?param=1''"
      and parts = "[''/api/test'', ''param=1'']" and entry = ?r and st = "[]" and st' = ?st'
      and p = "''/api/test''" and q = "''param=2''"]
  note t2 = endpoint_strips_query[where entry = rec_no_url and st = "[(''/x'', default_stat)]"
      and kvs = "[(''response_time'', JFloat (float_of_rat (1 / 10)))]"]
  have i0: "item0 [''/api/test'', ''param=1''] = Inr ''/api/test''"
    using t1 s by simp
  have cnt: "count (stat_of ?st' ''/api/test'') = 1 \<and> stat_of ?st' ''/api/other'' = default_stat"
    using t1 c a by (simp add: k stat_of_empty default_stat_def)
  have e: "endpoint_of (''/api/test'' @ ''?'' @ ''param=2'') = ''/api/test''"
    using t1 q by blast
  have z: "aggregate_entry [(''/x'', default_stat)] rec_no_url = Inr [(''/x'', default_stat)]"
    using t2 n by blast
  show ?thesis using s i0 c a cnt q e z by blast
qed

theorem aggregate_counts_and_totals_witness:
  "aggregate [] two_requests =
     Inr [(''/api/test'', \<lparr>count = 2, total_time = Finite False (1351079888211149 / 4503599627370496)\<rparr>)] \<and>
   (''/api/test'', \<lparr>count = 2, total_time = Finite False (1351079888211149 / 4503599627370496)\<rparr>)
     \<in> set [(''/api/test'', \<lparr>count = 2, total_time = Finite False (1351079888211149 / 4503599627370496)\<rparr>)] \<and>
   int (length (filter (\<lambda>e. contributes e \<and> key_of e = ''/api/test'') two_requests)) = 2 \<and>
   sum_times (Finite False 0)
     (map time_of (filter (\<lambda>e. contributes e \<and> key_of e = ''/api/test'') two_requests)) =
     Inr (Finite False (1351079888211149 / 4503599627370496)) \<and>
   avg_time \<lparr>count = 2, total_time = Finite False (1351079888211149 / 4503599627370496)\<rparr> \<noteq>
     Inl ZeroDivisionError"
proof -
  let ?d = "\<lparr>count = 2, total_time = Finite False (1351079888211149 / 4503599627370496)\<rparr>"
  have a: "aggregate [] two_requests = Inr [(''/api/test'', ?d)]" by (rule aggregate_example)
  have m: "(''/api/test'', ?d) \<in> set [(''/api/test'', ?d)]" by simp
  note t = aggregate_counts_and_totals[OF a m]
  have c: "int (length (filter (\<lambda>e. contributes e \<and> key_of e = ''/api/test'') two_requests)) = 2"
    using t by simp
  have s: "sum_times (Finite False 0)
     (map time_of (filter (\<lambda>e. contributes e \<and> key_of e = ''/api/test'') two_requests)) =
     Inr (Finite False (1351079888211149 / 4503599627370496))"
    using t by simp
  have z: "avg_time ?d \<noteq> Inl ZeroDivisionError" using t by blast
  show ?thesis using a m c s z by blast
qed

section \<open>The table: order, ranks and averages\<close>

lemma table_rows_Inr:
  assumes "table_rows st = Inr rs"
  shows "map (\<lambda>r. (fst r, row_count r)) rs = map (\<lambda>(k, d). (k, count d)) st"
  using assms
proof (induction st arbitrary: rs)
  case Nil
  then show ?case by simp
next
  case (Cons kd st)
  obtain k d where kd: "kd = (k, d)" by (cases kd)
  from Cons.prems obtain a rs' where a: "avg_time d = Inr a" and r: "table_rows st = Inr rs'"
    and rs: "rs = (k, count d, format_3f a) # rs'"
    by (auto simp: kd split: sum.splits)
  from Cons.IH[OF r] show ?case by (simp add: rs kd row_count_def)
qed

lemma table_rows_member:
  assumes "table_rows st = Inr rs" and "(k, c, cell) \<in> set rs"
  shows "\<exists>d a. (k, d) \<in> set st \<and> c = count d \<and> avg_time d = Inr a \<and> cell = format_3f a"
  using assms
proof (induction st arbitrary: rs)
  case Nil
  then show ?case by simp
next
  case (Cons kd st)
  obtain k' d' where kd: "kd = (k', d')" by (cases kd)
  from Cons.prems(1) obtain a rs' where a: "avg_time d' = Inr a" and r: "table_rows st = Inr rs'"
    and rs: "rs = (k', count d', format_3f a) # rs'"
    by (auto simp: kd split: sum.splits)
  from Cons.prems(2) rs have "(k, c, cell) = (k', count d', format_3f a) \<or> (k, c, cell) \<in> set rs'"
    by simp
  then show ?case
  proof
    assume "(k, c, cell) = (k', count d', format_3f a)"
    then show ?thesis using a by (auto simp: kd)
  next
    assume "(k, c, cell) \<in> set rs'"
    from Cons.IH[OF r this] show ?thesis by auto
  qed
qed

lemma table_data_Inr:
  assumes "table_data st = Inr rows"
  obtains rs where "table_rows st = Inr rs" "rows = enumerate 0 (sort_reverse row_count rs)"
  using assms by (auto simp: table_data_def split: sum.splits)

lemma sort_reverse_stable:
  "filter (\<lambda>x. f x = c) (sort_reverse f xs) = filter (\<lambda>x. f x = c) xs"
proof -
  have "filter (\<lambda>x. f x = c) (sort_reverse f xs) = rev (filter (\<lambda>x. f x = c) (sort_key f (rev xs)))"
    by (simp add: sort_reverse_def rev_filter)
  also have "\<dots> = rev (filter (\<lambda>x. f x = c) (rev xs))" by (simp only: sort_key_stable)
  also have "\<dots> = filter (\<lambda>x. f x = c) xs" by (simp add: rev_filter)
  finally show ?thesis .
qed

lemma sort_reverse_descending:
  assumes "i < j" "j < length (sort_reverse f xs)"
  shows "f (sort_reverse f xs ! j) \<le> f (sort_reverse f xs ! i)"
proof -
  have "sorted (map f (sort_key f (rev xs)))" by (rule sorted_sort_key)
  then have "sorted_wrt (\<lambda>x y. f x \<le> f y) (sort_key f (rev xs))" by (simp only: sorted_map)
  then have "sorted_wrt (\<lambda>x y. f y \<le> f x) (sort_reverse f xs)"
    by (simp add: sort_reverse_def sorted_wrt_rev)
  then show ?thesis using assms by (simp add: sorted_wrt_iff_nth_less)
qed

lemma set_sort_reverse: "set (sort_reverse f xs) = set xs"
  by (simp add: sort_reverse_def)

lemma length_sort_reverse: "length (sort_reverse f xs) = length xs"
  by (simp add: sort_reverse_def)

lemma rows_with_count:
  assumes "distinct (map fst st)"
    and "map (\<lambda>r. (fst r, row_count r)) rs = map (\<lambda>(k, d). (k, count d)) st"
  shows "map fst (filter (\<lambda>r. row_count r = c) rs) =
           filter (\<lambda>k. count (stat_of st k) = c) (map fst st)"
proof -
  have "map fst (filter (\<lambda>r. row_count r = c) rs) =
          map fst (filter (\<lambda>p. snd p = c) (map (\<lambda>r. (fst r, row_count r)) rs))"
    by (simp add: filter_map comp_def)
  also have "\<dots> = map fst (filter (\<lambda>p. snd p = c) (map (\<lambda>(k, d). (k, count d)) st))"
    by (simp only: assms(2))
  also have "\<dots> = map fst (filter (\<lambda>(k, d). count d = c) st)"
    by (simp add: filter_map comp_def case_prod_unfold)
  also have "\<dots> = map fst (filter (\<lambda>p. count (stat_of st (fst p)) = c) st)"
  proof -
    have "filter (\<lambda>(k, d). count d = c) st = filter (\<lambda>p. count (stat_of st (fst p)) = c) st"
      by (rule filter_cong) (auto simp: in_stats_stat_of[OF assms(1)])
    then show ?thesis by simp
  qed
  also have "\<dots> = filter (\<lambda>k. count (stat_of st k) = c) (map fst st)"
    by (simp add: filter_map comp_def)
  finally show ?thesis .
qed

text \<open>
  C3: the rows of the table, built from the mapping that the aggregation returns, carry
  as rank their position from 0; there is one row for every endpoint of the mapping; the
  counts never grow from one row to the next; and, for every count, the rows with that
  count stand in the order in which their endpoints were first met in the entries, which
  is the order in which the mapping received them. The sort is stable.
\<close>

theorem rows_sorted_stable_ranked:
  assumes "aggregate [] entries = Inr st" and "table_data st = Inr rows"
  shows "map fst rows = [0..<length rows] \<and>
         length rows = length st \<and>
         set (map (fst \<circ> snd) rows) = set (map fst st) \<and>
         (\<forall>i j. i < j \<and> j < length rows \<longrightarrow>
            row_count (snd (rows ! j)) \<le> row_count (snd (rows ! i))) \<and>
         (\<forall>c. map fst (filter (\<lambda>r. row_count r = c) (map snd rows)) =
              filter (\<lambda>k. count (stat_of st k) = c)
                (discovery_order (map key_of (filter contributes entries))))"
proof -
  from assms(2) obtain rs where rs: "table_rows st = Inr rs"
    and rows: "rows = enumerate 0 (sort_reverse row_count rs)" by (rule table_data_Inr)
  note corr = table_rows_Inr[OF rs]
  note keys = aggregate_distinct[OF assms(1)]
  have len: "length rs = length st" using arg_cong[OF corr, of length] by simp
  have sn: "map snd rows = sort_reverse row_count rs" by (simp add: rows)
  have rank: "map fst rows = [0..<length rows]" by (simp add: rows)
  have l: "length rows = length st" by (simp add: rows length_sort_reverse len)
  have "map (fst \<circ> snd) rows = map fst (map snd rows)" by simp
  then have "set (map (fst \<circ> snd) rows) = set (map fst (sort_reverse row_count rs))"
    by (simp only: sn)
  also have "\<dots> = fst ` set rs" by (simp add: set_sort_reverse)
  also have "\<dots> = set (map fst (map (\<lambda>r. (fst r, row_count r)) rs))" by (simp add: comp_def)
  also have "\<dots> = set (map fst (map (\<lambda>(k, d). (k, count d)) st))" by (simp only: corr)
  also have "\<dots> = set (map fst st)" by (simp add: comp_def case_prod_unfold)
  finally have eps: "set (map (fst \<circ> snd) rows) = set (map fst st)" .
  have desc: "\<forall>i j. i < j \<and> j < length rows \<longrightarrow>
            row_count (snd (rows ! j)) \<le> row_count (snd (rows ! i))"
  proof (intro allI impI)
    fix i j assume ij: "i < j \<and> j < length rows"
    then have j: "j < length (sort_reverse row_count rs)" and i: "i < length (sort_reverse row_count rs)"
      by (simp_all add: rows)
    have "snd (rows ! j) = sort_reverse row_count rs ! j" "snd (rows ! i) = sort_reverse row_count rs ! i"
      using i j by (simp_all add: rows nth_enumerate_eq)
    then show "row_count (snd (rows ! j)) \<le> row_count (snd (rows ! i))"
      using sort_reverse_descending[of i j row_count rs] ij j by simp
  qed
  have ties: "\<forall>c. map fst (filter (\<lambda>r. row_count r = c) (map snd rows)) =
              filter (\<lambda>k. count (stat_of st k) = c)
                (discovery_order (map key_of (filter contributes entries)))"
  proof
    fix c
    have "map fst (filter (\<lambda>r. row_count r = c) (map snd rows)) =
            map fst (filter (\<lambda>r. row_count r = c) rs)"
      by (simp only: sn sort_reverse_stable)
    also have "\<dots> = filter (\<lambda>k. count (stat_of st k) = c) (map fst st)"
      by (rule rows_with_count[OF keys(2) corr])
    finally show "map fst (filter (\<lambda>r. row_count r = c) (map snd rows)) =
              filter (\<lambda>k. count (stat_of st k) = c)
                (discovery_order (map key_of (filter contributes entries)))"
      by (simp only: keys(1))
  qed
  show ?thesis using rank l eps desc ties by blast
qed

lemma round_double_3: "round_double 3 = Some 3"
  using round_double_eval[of 1 3 1 6755399441055744]
  by (simp add: pow2_def)

lemma float_of_int_3: "float_of_int 3 = Inr (Finite False 3)"
  by (simp add: float_of_int_def round_double_3)

lemma format_3f_1: "format_3f (Finite False 1) = ''1.000''"
proof -
  have "round_half_even (1 * 1000) = 1000" by (rule rhe_unique) simp
  then show ?thesis by (simp add: format_3f_def digits.simps digit_char_def)
qed

lemma aggregate_ranking:
  "aggregate [] ranking_requests =
     Inr [(''/rare1'', \<lparr>count = 1, total_time = Finite False 1\<rparr>),
          (''/common'', \<lparr>count = 3, total_time = Finite False 3\<rparr>),
          (''/rare2'', \<lparr>count = 1, total_time = Finite False 1\<rparr>)]"
  by (simp add: ranking_requests_def aggregate_entry_def rec_int_def rec_no_url_def
      stats_getitem_def default_stat_def float_of_int_1 signed_def
      round_double_1 round_double_2 round_double_3)

lemma table_data_ranking:
  "table_data [(''/rare1'', \<lparr>count = 1, total_time = Finite False 1\<rparr>),
               (''/common'', \<lparr>count = 3, total_time = Finite False 3\<rparr>),
               (''/rare2'', \<lparr>count = 1, total_time = Finite False 1\<rparr>)] =
     Inr [(0, ''/common'', 3, ''1.000''), (1, ''/rare1'', 1, ''1.000''), (2, ''/rare2'', 1, ''1.000'')]"
  by (simp add: table_data_def avg_time_def float_of_int_1 float_of_int_3 round_double_1
      format_3f_1 sort_reverse_def row_count_def enumerate_eq_zip upt_rec)

theorem rows_sorted_stable_ranked_witness:
  "aggregate [] ranking_requests =
     Inr [(''/rare1'', \<lparr>count = 1, total_time = Finite False 1\<rparr>),
          (''/common'', \<lparr>count = 3, total_time = Finite False 3\<rparr>),
          (''/rare2'', \<lparr>count = 1, total_time = Finite False 1\<rparr>)] \<and>
   table_data [(''/rare1'', \<lparr>count = 1, total_time = Finite False 1\<rparr>),
               (''/common'', \<lparr>count = 3, total_time = Finite False 3\<rparr>),
               (''/rare2'', \<lparr>count = 1, total_time = Finite False 1\<rparr>)] =
     Inr [(0, ''/common'', 3, ''1.000''), (1, ''/rare1'', 1, ''1.000''), (2, ''/rare2'', 1, ''1.000'')] \<and>
   discovery_order (map key_of (filter contributes ranking_requests)) =
     [''/rare1'', ''/common'', ''/rare2''] \<and>
   filter (\<lambda>k. count (stat_of [(''/rare1'', \<lparr>count = 1, total_time = Finite False 1\<rparr>),
               (''/common'', \<lparr>count = 3, total_time = Finite False 3\<rparr>),
               (''/rare2'', \<lparr>count = 1, total_time = Finite False 1\<rparr>)] k) = 1)
     (discovery_order (map key_of (filter contributes ranking_requests))) =
     [''/rare1'', ''/rare2'']"
proof -
  let ?st = "[(''/rare1'', \<lparr>count = 1, total_time = Finite False 1\<rparr>),
               (''/common'', \<lparr>count = 3, total_time = Finite False 3\<rparr>),
               (''/rare2'', \<lparr>count = 1, total_time = Finite False 1\<rparr>)]"
  let ?rows = "[(0::nat, ''/common'', 3::int, ''1.000''), (1, ''/rare1'', 1, ''1.000''),
                (2, ''/rare2'', 1, ''1.000'')]"
  note t = rows_sorted_stable_ranked[OF aggregate_ranking table_data_ranking]
  from t have "map fst (filter (\<lambda>r. row_count r = 1) (map snd ?rows)) =
       filter (\<lambda>k. count (stat_of ?st k) = 1)
         (discovery_order (map key_of (filter contributes ranking_requests)))"
    by blast
  then have ties: "filter (\<lambda>k. count (stat_of ?st k) = 1)
         (discovery_order (map key_of (filter contributes ranking_requests))) = [''/rare1'', ''/rare2'']"
    by (simp add: row_count_def)
  have "map fst ?st = discovery_order (map key_of (filter contributes ranking_requests))"
    by (rule aggregate_distinct(1)[OF aggregate_ranking])
  then have order: "discovery_order (map key_of (filter contributes ranking_requests)) =
     [''/rare1'', ''/common'', ''/rare2'']" by simp
  show ?thesis using aggregate_ranking table_data_ranking order ties by blast
qed

lemma is_digit_digit_char: "is_digit (digit_char d)"
proof -
  have "d mod 10 < length ''0123456789''" by simp
  then have "''0123456789'' ! (d mod 10) \<in> set ''0123456789''" by (rule nth_mem)
  then show ?thesis by (simp only: is_digit_def digit_char_def)
qed

lemma digits_all: "digits n \<noteq> [] \<and> list_all is_digit (digits n)"
proof (induction n rule: digits.induct)
  case (1 n)
  show ?case
  proof (cases "n < 10")
    case True
    then show ?thesis by (simp add: digits.simps[of n] is_digit_digit_char)
  next
    case False
    with 1 show ?thesis by (simp add: digits.simps[of n] is_digit_digit_char)
  qed
qed

lemma is_digit_not_minus: "is_digit c \<Longrightarrow> c \<noteq> CHR ''-''"
  by (auto simp: is_digit_def)

lemma three_decimals_plain:
  assumes "ds \<noteq> []" "list_all is_digit ds" "is_digit x" "is_digit y" "is_digit z"
  shows "three_decimals (ds @ ''.'' @ [x, y, z])"
proof -
  from assms(1) obtain c r where ds: "ds = c # r" by (cases ds) auto
  with assms(2) have "c \<noteq> CHR ''-''" by (simp add: is_digit_not_minus)
  then have t: "(case ds @ ''.'' @ [x, y, z] of [] \<Rightarrow> [] | c # r \<Rightarrow>
                  if c = CHR ''-'' then r else ds @ ''.'' @ [x, y, z]) = ds @ ''.'' @ [x, y, z]"
    by (simp add: ds)
  show ?thesis
    unfolding three_decimals_def t using assms by (simp add: Let_def)
qed

lemma three_decimals_minus:
  assumes "ds \<noteq> []" "list_all is_digit ds" "is_digit x" "is_digit y" "is_digit z"
  shows "three_decimals (''-'' @ ds @ ''.'' @ [x, y, z])"
  using assms by (simp add: three_decimals_def Let_def)

lemma three_decimals_format_3f: "three_decimals (format_3f (Finite s a))"
proof -
  define n where "n = nat (round_half_even (a * 1000))"
  have f: "format_3f (Finite s a) =
             (if s then ''-'' else []) @ digits (n div 1000) @ ''.'' @
             [digit_char (n div 100), digit_char (n div 10), digit_char n]"
    by (simp add: format_3f_def n_def Let_def)
  note d = digits_all[of "n div 1000"]
  have m: "three_decimals (''-'' @ digits (n div 1000) @ ''.'' @
             [digit_char (n div 100), digit_char (n div 10), digit_char n])"
    using d by (intro three_decimals_minus) (simp_all add: is_digit_digit_char)
  have p: "three_decimals (digits (n div 1000) @ ''.'' @
             [digit_char (n div 100), digit_char (n div 10), digit_char n])"
    using d by (intro three_decimals_plain) (simp_all add: is_digit_digit_char)
  show ?thesis unfolding f using m p by (cases s) simp_all
qed

text \<open>
  The average cell. In every row of the table the count is at least 1 and the last cell
  is the float quotient of the endpoint's total by its count, formatted by \<^verbatim>\<open>.3f\<close> at
  line 108; when the quotient is finite the cell is an optional sign, digits, a point and
  exactly three digits.
\<close>

lemma average_cell_format:
  assumes "aggregate [] entries = Inr st" and "table_data st = Inr rows"
    and "(i, k, c, cell) \<in> set rows"
  shows "\<exists>d cf a. (k, d) \<in> set st \<and> c = count d \<and> 1 \<le> count d \<and>
         float_of_int (count d) = Inr cf \<and> float_truediv (total_time d) cf = Inr a \<and>
         cell = format_3f a \<and> (is_finite a \<longrightarrow> three_decimals cell)"
proof -
  from assms(2) obtain rs where rs: "table_rows st = Inr rs"
    and rows: "rows = enumerate 0 (sort_reverse row_count rs)" by (rule table_data_Inr)
  from assms(3) have "(k, c, cell) \<in> snd ` set rows" by force
  then have "(k, c, cell) \<in> set (map snd rows)" by simp
  then have "(k, c, cell) \<in> set rs" by (simp add: rows set_sort_reverse)
  from table_rows_member[OF rs this] obtain d a where d: "(k, d) \<in> set st" and c: "c = count d"
    and a: "avg_time d = Inr a" and cell: "cell = format_3f a" by blast
  from aggregate_in_stats(3)[OF assms(1) d] have pos: "1 \<le> count d" .
  from a avg_time_positive(1)[OF pos] obtain cf where cf: "float_of_int (count d) = Inr cf"
    and q: "float_truediv (total_time d) cf = Inr a"
    by (cases "float_of_int (count d)") auto
  have "is_finite a \<longrightarrow> three_decimals cell"
    by (cases a) (simp_all add: cell three_decimals_format_3f)
  with d c pos cf q cell show ?thesis by blast
qed

text \<open>
  An average that is not finite is formatted without decimals: a response time that
  \<^verbatim>\<open>json.loads\<close> reads as infinity gives the cell \<^verbatim>\<open>inf\<close>.
\<close>

lemma aggregate_inf:
  "aggregate [] [rec_inf_time] = Inr [(''/a'', \<lparr>count = 1, total_time = Infty False\<rparr>)]"
  by (simp add: aggregate_entry_def rec_inf_time_def stats_getitem_def default_stat_def)

lemma table_data_inf:
  "table_data [(''/a'', \<lparr>count = 1, total_time = Infty False\<rparr>)] = Inr [(0, ''/a'', 1, ''inf'')]"
  by (simp add: table_data_def avg_time_def float_of_int_1 format_3f_def sort_reverse_def
      enumerate_eq_zip)

lemma aggregate_average_requests:
  "aggregate [] average_requests =
     Inr [(''/api/test'', \<lparr>count = 2, total_time = Finite False (1351079888211149 / 4503599627370496)\<rparr>)]"
  by (simp add: average_requests_def aggregate_entry_def rec_time_def float_of_rat_1_10
      float_of_rat_1_5 stats_getitem_def default_stat_def float_add_0_d01 float_add_d01_d02
      del: float_add.simps)

text \<open>
  C8: the code formats every average to three decimals, and then hands the text to
  \<^verbatim>\<open>tabulate\<close> as an ordinary cell. For two requests to one endpoint that took 0.1 and
  0.2, the report is what \<^verbatim>\<open>tabulate\<close> returns for the single row with the rank 0, the
  endpoint \<^verbatim>\<open>/api/test\<close>, the count 2 and the cell \<^verbatim>\<open>0.150\<close>, together with the headers,
  the format \<^verbatim>\<open>plain\<close> and the column alignment; the call passes nothing else, and in
  particular does not switch off the number parsing of \<^verbatim>\<open>tabulate\<close>. With that parsing,
  which is its default, \<^verbatim>\<open>tabulate\<close> reads a cell that looks like a number as a float
  and prints it in its own float format: the rendered report shows 0.15, not the 0.150
  of the specification.
\<close>

theorem average_example_handed_to_tabulate:
  "generate_average_report tab average_requests =
     Inr (tab [(0, ''/api/test'', 2, ''0.150'')]
              ['''', ''handler'', ''total'', ''avg_response_time''] ''plain''
              [''left'', ''left'', ''right'', ''right''])"
proof -
  have ne: "average_requests \<noteq> []" by (simp add: average_requests_def)
  show ?thesis
    by (simp add: generate_average_report_def ne aggregate_average_requests table_data_example
        headers_def colalign_def)
qed

section \<open>The report raises only on ill-typed fields\<close>

lemma aggregate_entry_ok:
  assumes "report_input_ok e"
  shows "\<exists>st'. aggregate_entry st e = Inr st'"
proof (cases "contributes e")
  case True
  with assms have "number_ok (time_of e)" by (simp add: report_input_ok_def)
  from float_plus_number_ok[OF this] obtain t
    where "float_plus (total_time (stat_of st (key_of e))) (time_of e) = Inr t" by blast
  then show ?thesis by (simp add: aggregate_entry_contributes[OF True])
next
  case False
  from assms obtain kvs where e: "e = JDict kvs"
    by (cases e) (auto simp: report_input_ok_def url_ok_def)
  have "case map_of kvs ''url'' of None \<Rightarrow> True | Some v \<Rightarrow> \<not> truthy v"
  proof (cases "map_of kvs ''url''")
    case None
    then show ?thesis by simp
  next
    case (Some v)
    with assms False e show ?thesis
      by (cases v) (auto simp: report_input_ok_def url_ok_def contributes_def)
  qed
  from aggregate_entry_falsy_url[OF e this] show ?thesis by blast
qed

lemma aggregate_ok:
  assumes "list_all report_input_ok entries"
  shows "\<exists>st. aggregate st0 entries = Inr st"
  using assms
proof (induction entries arbitrary: st0)
  case Nil
  then show ?case by simp
next
  case (Cons e entries)
  then have e: "report_input_ok e" and rest: "list_all report_input_ok entries" by simp_all
  from aggregate_entry_ok[OF e] obtain st1 where "aggregate_entry st0 e = Inr st1" by blast
  with Cons.IH[OF rest, of st1] show ?case by simp
qed

lemma aggregate_raises:
  assumes "e \<in> set entries" and "\<And>st. \<exists>err. aggregate_entry st e = Inl err"
  shows "\<exists>err. aggregate st0 entries = Inl err"
  using assms(1)
proof (induction entries arbitrary: st0)
  case Nil
  then show ?case by simp
next
  case (Cons x entries)
  show ?case
  proof (cases "aggregate_entry st0 x")
    case (Inl err)
    then show ?thesis by simp
  next
    case (Inr st1)
    with assms(2)[of st0] have "x \<noteq> e" by auto
    with Cons.prems have "e \<in> set entries" by simp
    from Cons.IH[OF this, of st1] Inr show ?thesis by simp
  qed
qed

lemma float_of_int_fits:
  assumes "0 \<le> n" "n < 2 ^ 63"
  shows "\<exists>m. float_of_int n = Inr (Finite False m)"
proof -
  have "rat_of_int n < rat_of_int (2 ^ 63)" using assms(2) by (simp only: of_int_less_iff)
  also have "\<dots> < pow2 1023" by (simp add: pow2_def)
  finally have "\<bar>rat_of_int n\<bar> < pow2 1023" using assms(1) by simp
  from round_double_fits[OF _ this] obtain m where "round_double \<bar>rat_of_int n\<bar> = Some m" by auto
  then show ?thesis using assms(1) by (simp add: float_of_int_def)
qed

lemma float_truediv_finite:
  "b \<noteq> 0 \<Longrightarrow> \<exists>a. float_truediv x (Finite t b) = Inr a"
  by (cases x) (auto split: option.splits)

lemma avg_time_ok:
  assumes "1 \<le> count d" "count d < 2 ^ 63"
  shows "\<exists>a. avg_time d = Inr a"
proof -
  from float_of_int_fits[OF _ assms(2)] assms(1) obtain m
    where m: "float_of_int (count d) = Inr (Finite False m)" by auto
  from float_of_int_pos[OF assms(1) m] have "m \<noteq> 0" by auto
  from float_truediv_finite[OF this] obtain a
    where "float_truediv (total_time d) (Finite False m) = Inr a" by blast
  then show ?thesis using assms(1) by (simp add: avg_time_def m)
qed

lemma table_rows_ok:
  assumes "\<And>k d. (k, d) \<in> set st \<Longrightarrow> \<exists>a. avg_time d = Inr a"
  shows "\<exists>rs. table_rows st = Inr rs"
  using assms
proof (induction st)
  case Nil
  then show ?case by simp
next
  case (Cons kd st)
  obtain k d where kd: "kd = (k, d)" by (cases kd)
  from Cons.prems[of k d] obtain a where a: "avg_time d = Inr a" by (auto simp: kd)
  from Cons.IH Cons.prems obtain rs where "table_rows st = Inr rs" by auto
  then show ?case by (simp add: kd a)
qed

text \<open>
  C9, as the code has it. \<^verbatim>\<open>generate_average_report\<close> returns a string, and raises nothing,
  for every list of fewer than \<open>2 ^ 63\<close> entries (a Python list holds no more) in which each
  entry is a record whose URL, when present and truthy, is a string, and in which each
  response time present in a record with such a URL is a float, or an int or bool that
  converts to a float. For a list that contains a record with a truthy URL that is not a
  string, the function raises.
\<close>

theorem report_does_not_raise:
  "(list_all report_input_ok entries \<and> length entries < 2 ^ 63 \<longrightarrow>
      (\<exists>s. generate_average_report tab entries = Inr s))
   \<and> (JDict kvs \<in> set entries \<and> map_of kvs ''url'' = Some v \<and> truthy v \<and> (\<forall>u. v \<noteq> JStr u) \<longrightarrow>
      (\<exists>err. generate_average_report tab entries = Inl err))"
proof (intro conjI impI)
  assume h: "list_all report_input_ok entries \<and> length entries < 2 ^ 63"
  from aggregate_ok[of entries "[]"] h obtain st where st: "aggregate [] entries = Inr st" by blast
  have "\<exists>rs. table_rows st = Inr rs"
  proof (rule table_rows_ok)
    fix k d assume kd: "(k, d) \<in> set st"
    note f = aggregate_in_stats[OF st kd]
    have "length (filter (\<lambda>e. contributes e \<and> key_of e = k) entries) \<le> length entries"
      by (rule length_filter_le)
    then have "count d \<le> int (length entries)" by (simp add: f(1))
    also have "\<dots> < 2 ^ 63" using h by simp
    finally show "\<exists>a. avg_time d = Inr a" using f(3) by (intro avg_time_ok)
  qed
  then obtain rs where "table_rows st = Inr rs" by blast
  then show "\<exists>s. generate_average_report tab entries = Inr s"
    by (simp add: generate_average_report_def st table_data_def)
next
  assume h: "JDict kvs \<in> set entries \<and> map_of kvs ''url'' = Some v \<and> truthy v \<and> (\<forall>u. v \<noteq> JStr u)"
  then have "\<And>st. \<exists>err. aggregate_entry st (JDict kvs) = Inl err"
    using aggregate_entry_bad_url[of "JDict kvs" kvs v] by blast
  with aggregate_raises[of "JDict kvs" entries "[]"] h
  obtain err where "aggregate [] entries = Inl err" by blast
  moreover have "entries \<noteq> []" using h by auto
  ultimately show "\<exists>err. generate_average_report tab entries = Inl err"
    by (simp add: generate_average_report_def)
qed

lemma float_of_int_big: "float_of_int (10 ^ 400) = Inl OverflowError"
proof -
  have "round_double \<bar>rat_of_int (10 ^ 400)\<bar> = None"
    by (rule round_double_overflow) (simp add: pow2_def)
  then show ?thesis by (simp only: float_of_int_def option.case)
qed

lemma aggregate_entry_overflow:
  assumes "float_of_int n = Inl OverflowError" and "u \<noteq> []"
  shows "aggregate_entry st (JDict [(''url'', JStr u), (''response_time'', JInt n)]) =
           Inl OverflowError"
proof -
  have c: "contributes (JDict [(''url'', JStr u), (''response_time'', JInt n)])"
    using assms(2) by (simp add: contributes_def)
  have t: "time_of (JDict [(''url'', JStr u), (''response_time'', JInt n)]) = JInt n"
    by (simp add: time_of_def)
  show ?thesis
    by (simp only: aggregate_entry_contributes[OF c] t float_plus.simps assms(1) sum.case)
qed

lemma aggregate_big: "aggregate_entry [] rec_big_time = Inl OverflowError"
  unfolding rec_big_time_def by (rule aggregate_entry_overflow[OF float_of_int_big]) simp

lemma spec_input_ok_big: "spec_input_ok rec_big_time"
  by (simp add: spec_input_ok_def url_ok_def contributes_def is_number_def rec_big_time_def)

text \<open>
  C9 as the specification states it fails: a response time that is a number can still
  make the function raise. The JSON integer written as 1 followed by 400 zeros is an
  \<^verbatim>\<open>int\<close> that no float holds, and adding it to the total raises \<^verbatim>\<open>OverflowError\<close>.
\<close>

theorem big_int_response_time_raises:
  "spec_input_ok rec_big_time \<and>
   generate_average_report example_tabulate [rec_big_time] = Inl OverflowError"
  by (simp add: spec_input_ok_big generate_average_report_def aggregate_big)

lemma report_input_ok_two_requests: "list_all report_input_ok two_requests"
  by (simp add: two_requests_def report_input_ok_def url_ok_def contributes_def number_ok_def
      time_of_def rec_time_def rec_no_url_def)

lemma report_number_url:
  "generate_average_report tab [rec_number_url] = Inl AttributeError"
  by (simp add: generate_average_report_def aggregate_entry_def rec_number_url_def)

theorem report_does_not_raise_witness:
  "list_all report_input_ok two_requests \<and> length two_requests < 2 ^ 63 \<and>
   (\<exists>s. generate_average_report example_tabulate two_requests = Inr s) \<and>
   rec_number_url \<in> set [rec_no_url, rec_number_url] \<and>
   (\<exists>err. generate_average_report example_tabulate [rec_no_url, rec_number_url] = Inl err)"
proof -
  have l: "length two_requests < 2 ^ 63" by (simp add: two_requests_def)
  have m: "JDict [(''url'', JInt 5)] \<in> set [rec_no_url, rec_number_url] \<and>
           map_of [(''url'', JInt 5)] ''url'' = Some (JInt 5) \<and> truthy (JInt 5) \<and>
           (\<forall>u. JInt 5 \<noteq> JStr u)"
    by (simp add: rec_number_url_def)
  note t1 = report_does_not_raise[of two_requests example_tabulate]
  note t2 = report_does_not_raise[of "[rec_no_url, rec_number_url]" example_tabulate
      "[(''url'', JInt 5)]" "JInt 5"]
  have ok: "\<exists>s. generate_average_report example_tabulate two_requests = Inr s"
    using t1 report_input_ok_two_requests l by blast
  have bad: "\<exists>err. generate_average_report example_tabulate [rec_no_url, rec_number_url] = Inl err"
    using t2 m by blast
  have "rec_number_url \<in> set [rec_no_url, rec_number_url]" by simp
  then show ?thesis using report_input_ok_two_requests l ok bad by blast
qed

section \<open>Reading the files\<close>

lemma read_lines_eq:
  "read_lines dec p n lines (out, entries) =
     (out @ line_warnings dec p n lines, entries @ decode_lines dec lines)"
proof (induction lines arbitrary: n out entries)
  case Nil
  show ?case by (simp add: line_warnings_def decode_lines_def)
next
  case (Cons line lines)
  have w: "line_warnings dec p n (line # lines) =
             (if strip line = [] then []
              else case dec (strip line) of
                     Inl msg \<Rightarrow> [''Warning: Invalid JSON in '' @ p @ '' at line '' @
                                 digits n @ '': '' @ msg]
                   | Inr v \<Rightarrow> []) @ line_warnings dec p (Suc n) lines"
    by (simp add: line_warnings_def)
  have d: "decode_lines dec (line # lines) =
             (if strip line = [] then []
              else case dec (strip line) of Inl msg \<Rightarrow> [] | Inr v \<Rightarrow> [v]) @
             decode_lines dec lines"
    by (simp add: decode_lines_def)
  show ?case
    by (cases "dec (strip line)") (simp_all add: w d Cons.IH Let_def)
qed

lemma decode_lines_Nil: "decode_lines dec [] = []"
  by (simp add: decode_lines_def)

lemma read_files_eq:
  assumes "list_all (\<lambda>p. decodes (src p)) paths"
  shows "read_files src dec paths (out, entries) =
           (out @ concat (map (\<lambda>p. source_messages dec p (src p)) paths),
            Inr (entries @ concat (map (\<lambda>p. decode_lines dec (source_lines (src p))) paths)))"
  using assms
proof (induction paths arbitrary: out entries)
  case Nil
  show ?case by simp
next
  case (Cons p paths)
  then have p: "decodes (src p)" and rest: "list_all (\<lambda>p. decodes (src p)) paths" by simp_all
  note ih = Cons.IH[OF rest]
  show ?case
  proof (cases "src p")
    case Missing
    then show ?thesis by (simp add: ih source_messages_def source_lines_def decode_lines_Nil)
  next
    case (OpenFails msg)
    then show ?thesis by (simp add: ih source_messages_def source_lines_def decode_lines_Nil)
  next
    case (Opened lines e)
    with p show ?thesis
      by (cases e) (simp_all add: ih read_lines_eq source_messages_def source_lines_def decodes_def)
  qed
qed

lemma read_log_files_eq:
  assumes "list_all (\<lambda>p. decodes (src p)) paths"
  shows "read_log_files src dec paths =
           (concat (map (\<lambda>p. source_messages dec p (src p)) paths),
            Inr (concat (map (\<lambda>p. decode_lines dec (source_lines (src p))) paths)))"
  using read_files_eq[OF assms, of dec "[]" "[]"] by (simp add: read_log_files_def)

lemma read_files_undecodable:
  assumes "\<not> list_all (\<lambda>p. decodes (src p)) paths"
  shows "snd (read_files src dec paths (out, entries)) = Inl UnicodeDecodeError"
  using assms
proof (induction paths arbitrary: out entries)
  case Nil
  then show ?case by simp
next
  case (Cons p paths)
  show ?case
  proof (cases "decodes (src p)")
    case True
    with Cons.prems have rest: "\<not> list_all (\<lambda>p. decodes (src p)) paths" by simp
    note ih = Cons.IH[OF rest]
    show ?thesis
    proof (cases "src p")
      case Missing
      then show ?thesis by (simp add: ih)
    next
      case (OpenFails msg)
      then show ?thesis by (simp add: ih)
    next
      case (Opened lines e)
      with True show ?thesis
        by (cases e) (simp_all add: ih read_lines_eq decodes_def)
    qed
  next
    case False
    then obtain lines where "src p = Opened lines ReadUnicodeError"
      by (auto simp: decodes_def split: source.splits read_end.splits)
    then show ?thesis by (simp add: read_lines_eq)
  qed
qed

text \<open>
  C4 holds for sources that are missing, that do not open, or whose bytes decode
  (\<open>read_log_files_eq\<close>: the records are the decoded lines, source after source and line
  after line, and every missing source, source that does not open and line that does
  not decode is reported and passed over). It fails for a source whose bytes are not
  UTF-8: iterating over the file raises \<^verbatim>\<open>UnicodeDecodeError\<close>, which is a \<^verbatim>\<open>ValueError\<close>
  and not one of the errors that line 61 catches. With \<^verbatim>\<open>bad.log\<close> such a file and
  \<^verbatim>\<open>good.log\<close> a file with one record, reading both returns nothing and raises, where
  reading \<^verbatim>\<open>good.log\<close> alone returns its record; and the command ends on the exception.
\<close>

theorem undecodable_file_stops_reading:
  "read_log_files example_fs example_loads [''bad.log'', ''good.log''] = ([], Inl UnicodeDecodeError) \<and>
   read_log_files example_fs example_loads [''good.log''] = ([], Inr [rec_22]) \<and>
   main example_world (example_args [''bad.log'', ''good.log''] ''average'' None) =
     ([], Uncaught UnicodeDecodeError)"
  by (simp add: read_good main_def main_before_report_def example_world_sel example_args_sel)
     (simp add: read_log_files_def example_fs_def)

end
